theory Spec2Isabelle
  imports Main "HOL-Library.Word" "HOL-Library.AList"
begin

section \<open>Numbers of the exporter\<close>

text \<open>
  The gateway's admin library (go-ceph, \<^verbatim>\<open>rgw/admin\<close>) declares the counters and
  statistics it decodes as \<^verbatim>\<open>uint64\<close>, the object quota as \<^verbatim>\<open>int64\<close> and the quota
  size in kibibytes as \<^verbatim>\<open>int\<close>, which is 64 bits wide on the 64-bit Linux targets the
  exporter is built for. Both are 64-bit words here; \<open>uint\<close> reads the unsigned and
  \<open>sint\<close> the signed ones.
\<close>

type_synonym u64 = "64 word"
type_synonym i64 = "64 word"

text \<open>
  Every value the collector hands to Prometheus is a \<^verbatim>\<open>float64\<close>. All of them but the
  scrape duration are converted from integers or are sums of such values, so they are
  integers themselves, and the model represents such a \<^verbatim>\<open>float64\<close> by the integer it
  denotes. A \<^verbatim>\<open>float64\<close> has a significand of 53 bits: an integer of more bits is
  rounded to the nearest representable one, a tie going to the even significand
  (IEEE 754, the rounding of Go's conversions and of its addition).
  Overflow to infinity is left out: it takes a sum of at least \<open>2 ^ 1023\<close>, that is more
  than \<open>2 ^ 959\<close> summands below \<open>2 ^ 64\<close>, and a Go slice holds fewer than \<open>2 ^ 63\<close>.
\<close>

type_synonym float64 = int

fun bit_len :: "nat \<Rightarrow> nat" where
  "bit_len n = (if n = 0 then 0 else Suc (bit_len (n div 2)))"

declare bit_len.simps [simp del]

definition f64_round :: "nat \<Rightarrow> nat" where
  "f64_round n =
     (if n < 2 ^ 53 then n
      else let e = bit_len n - 53;
               q = n div 2 ^ e;
               r = n mod 2 ^ e;
               half = 2 ^ (e - 1)
           in if r < half \<or> (r = half \<and> even q) then q * 2 ^ e else (q + 1) * 2 ^ e)"

definition f64_of_int :: "int \<Rightarrow> float64" where
  "f64_of_int i = (if i < 0 then - int (f64_round (nat (- i))) else int (f64_round (nat i)))"

text \<open>\<^verbatim>\<open>float64(x)\<close> for an unsigned and for a signed 64-bit \<^verbatim>\<open>x\<close>.\<close>

definition f64_of_u64 :: "u64 \<Rightarrow> float64" where
  "f64_of_u64 w = f64_of_int (uint w)"

definition f64_of_i64 :: "i64 \<Rightarrow> float64" where
  "f64_of_i64 w = f64_of_int (sint w)"

text \<open>\<^verbatim>\<open>a + b\<close> on \<^verbatim>\<open>float64\<close>: the exact sum, rounded.\<close>

definition f64_add :: "float64 \<Rightarrow> float64 \<Rightarrow> float64" where
  "f64_add a b = f64_of_int (a + b)"

section \<open>What the admin client returns\<close>

text \<open>
  Modelled from the spec: the record types of the admin client are declared in its
  library, not in the repository. They are modelled with the fields that \<^verbatim>\<open>Collect\<close>
  reads: the usage entries with their per-bucket records and per-category counters, a
  user with statistics and two quotas, a bucket with the statistics of its main pool. A
  field that \<^verbatim>\<open>Collect\<close> compares with \<^verbatim>\<open>nil\<close> and dereferences is an \<open>option\<close>,
  \<open>None\<close> for \<^verbatim>\<open>nil\<close>.
\<close>

record UsageCategory =
  Category :: string
  BytesSent :: u64
  BytesReceived :: u64
  Ops :: u64
  SuccessfulOps :: u64

record UsageBucket =
  Bucket :: string
  Categories :: "UsageCategory list"

record UsageEntry =
  User :: string
  Buckets :: "UsageBucket list"

record UserStat =
  Size :: "u64 option"
  NumObjects :: "u64 option"

record QuotaSpec =
  Enabled :: "bool option"
  MaxSizeKb :: "i64 option"
  MaxObjects :: "i64 option"

record AdminUser =
  ID :: string
  Stat :: UserStat
  UserQuota :: QuotaSpec
  BucketQuota :: QuotaSpec

text \<open>
  \<^verbatim>\<open>admin.Bucket\<close>: \<open>BucketName\<close> is its field \<^verbatim>\<open>Bucket\<close>, \<open>MainNumObjects\<close> and
  \<open>MainSizeActual\<close> are \<^verbatim>\<open>Usage.RgwMain.NumObjects\<close> and \<^verbatim>\<open>Usage.RgwMain.SizeActual\<close>.
\<close>

record AdminBucket =
  BucketName :: string
  Owner :: string
  MainNumObjects :: "u64 option"
  MainSizeActual :: "u64 option"

text \<open>A Go \<^verbatim>\<open>error\<close>, with its message.\<close>

datatype error = Error string

text \<open>
  Modelled from the spec: the client's declaration is not part of the repository. Each of
  the four queries of a pass returns a sequence (or a record) or a failure; the answer to
  a per-user query is a function of the identifier asked for.
\<close>

record Client =
  GetUsage :: "error + UsageEntry list"
  GetUsers :: "error + string list"
  GetUser :: "string \<Rightarrow> error + AdminUser"
  ListUsersBucketsWithStat :: "string \<Rightarrow> error + AdminBucket list"

section \<open>The collector\<close>

record usageMetricKey =
  bucket :: string
  owner :: string
  category :: string
  store :: string

record usageMetricValues =
  ops :: float64
  successfulOps :: float64
  bytesSent :: float64
  bytesReceived :: float64

text \<open>The collector: its client and the configured store label (\<^verbatim>\<open>c.client\<close>, \<^verbatim>\<open>c.store\<close>).\<close>

record RADOSGWCollector =
  client :: Client
  c_store :: string

text \<open>The sixteen descriptors that \<^verbatim>\<open>NewRADOSGWCollector\<close> builds, with name and labels.\<close>

datatype desc =
    desc_ops
  | desc_successfulOps
  | desc_bytesSent
  | desc_bytesReceived
  | desc_bucketUsageBytes
  | desc_bucketUsageObjects
  | desc_userTotalBytes
  | desc_userTotalObjects
  | desc_userQuotaEnabled
  | desc_userQuotaMaxSizeBytes
  | desc_userQuotaMaxObjects
  | desc_userBucketQuotaEnabled
  | desc_userBucketQuotaMaxSizeBytes
  | desc_userBucketQuotaMaxObjects
  | desc_scrapeDurationSeconds
  | desc_up

definition bucketLabels :: "string list" where
  "bucketLabels = [''bucket'', ''owner'', ''category'', ''store'']"

definition userLabels :: "string list" where
  "userLabels = [''user'', ''store'']"

fun fqName :: "desc \<Rightarrow> string" where
  "fqName desc_ops = ''radosgw_usage_ops_total''"
| "fqName desc_successfulOps = ''radosgw_usage_successful_ops_total''"
| "fqName desc_bytesSent = ''radosgw_usage_sent_bytes_total''"
| "fqName desc_bytesReceived = ''radosgw_usage_received_bytes_total''"
| "fqName desc_bucketUsageBytes = ''radosgw_usage_bucket_bytes''"
| "fqName desc_bucketUsageObjects = ''radosgw_usage_bucket_objects''"
| "fqName desc_userTotalBytes = ''radosgw_usage_user_total_bytes''"
| "fqName desc_userTotalObjects = ''radosgw_usage_user_total_objects''"
| "fqName desc_userQuotaEnabled = ''radosgw_usage_user_quota_enabled''"
| "fqName desc_userQuotaMaxSizeBytes = ''radosgw_usage_user_quota_size_bytes''"
| "fqName desc_userQuotaMaxObjects = ''radosgw_usage_user_quota_size_objects''"
| "fqName desc_userBucketQuotaEnabled = ''radosgw_usage_user_bucket_quota_enabled''"
| "fqName desc_userBucketQuotaMaxSizeBytes = ''radosgw_usage_user_bucket_quota_size_bytes''"
| "fqName desc_userBucketQuotaMaxObjects = ''radosgw_usage_user_bucket_quota_size_objects''"
| "fqName desc_scrapeDurationSeconds = ''radosgw_usage_scrape_duration_seconds''"
| "fqName desc_up = ''radosgw_up''"

fun variableLabels :: "desc \<Rightarrow> string list" where
  "variableLabels desc_ops = bucketLabels"
| "variableLabels desc_successfulOps = bucketLabels"
| "variableLabels desc_bytesSent = bucketLabels"
| "variableLabels desc_bytesReceived = bucketLabels"
| "variableLabels desc_bucketUsageBytes = bucketLabels"
| "variableLabels desc_bucketUsageObjects = bucketLabels"
| "variableLabels desc_scrapeDurationSeconds = []"
| "variableLabels desc_up = []"
| "variableLabels d = userLabels"

datatype valueType = CounterValue | GaugeValue

text \<open>
  The value of a measurement: \<open>Float64 i\<close> is the \<^verbatim>\<open>float64\<close> denoting the integer \<open>i\<close>;
  \<open>Seconds d\<close> is the \<^verbatim>\<open>float64\<close> that \<^verbatim>\<open>Duration.Seconds()\<close> returns for a duration of
  \<open>d\<close> nanoseconds, on which the collector does no arithmetic.
\<close>

datatype metricValue = Float64 float64 | Seconds int

record metric =
  m_desc :: desc
  m_valueType :: valueType
  m_value :: metricValue
  m_labelValues :: "string list"

text \<open>
  The constructor of a measurement belongs to the metrics library, outside the repository.
  It returns an error, and \<^verbatim>\<open>MustNewConstMetric\<close> panics with it, when the number of label
  values differs from the number of labels of the descriptor or when a label value is not
  valid UTF-8. \<open>ValidString\<close> is Go's \<^verbatim>\<open>utf8.ValidString\<close>, on the bytes of the string.
\<close>

definition continuation :: "nat \<Rightarrow> bool" where
  "continuation b \<longleftrightarrow> 128 \<le> b \<and> b \<le> 191"

definition second_of_three :: "nat \<Rightarrow> nat \<Rightarrow> bool" where
  "second_of_three b c \<longleftrightarrow>
     (if b = 224 then 160 \<le> c \<and> c \<le> 191
      else if b = 237 then 128 \<le> c \<and> c \<le> 159
      else continuation c)"

definition second_of_four :: "nat \<Rightarrow> nat \<Rightarrow> bool" where
  "second_of_four b c \<longleftrightarrow>
     (if b = 240 then 144 \<le> c \<and> c \<le> 191
      else if b = 244 then 128 \<le> c \<and> c \<le> 143
      else continuation c)"

fun valid_bytes :: "nat list \<Rightarrow> bool" where
  "valid_bytes [] = True"
| "valid_bytes (b # bs) =
     (if b < 128 then valid_bytes bs
      else if 194 \<le> b \<and> b \<le> 223 then
        (case bs of c1 # r \<Rightarrow> continuation c1 \<and> valid_bytes r | _ \<Rightarrow> False)
      else if 224 \<le> b \<and> b \<le> 239 then
        (case bs of
           c1 # c2 # r \<Rightarrow> second_of_three b c1 \<and> continuation c2 \<and> valid_bytes r
         | _ \<Rightarrow> False)
      else if 240 \<le> b \<and> b \<le> 244 then
        (case bs of
           c1 # c2 # c3 # r \<Rightarrow>
             second_of_four b c1 \<and> continuation c2 \<and> continuation c3 \<and> valid_bytes r
         | _ \<Rightarrow> False)
      else False)"

definition ValidString :: "string \<Rightarrow> bool" where
  "ValidString s = valid_bytes (map of_char s)"

definition MustNewConstMetric :: "desc \<Rightarrow> valueType \<Rightarrow> metricValue \<Rightarrow> string list \<Rightarrow> error + metric" where
  "MustNewConstMetric d t v labelValues =
     (if length labelValues \<noteq> length (variableLabels d)
      then Inl (Error ''inconsistent label cardinality'')
      else if \<not> list_all ValidString labelValues
      then Inl (Error ''label value is not valid UTF-8'')
      else Inr \<lparr>m_desc = d, m_valueType = t, m_value = v, m_labelValues = labelValues\<rparr>)"

subsection \<open>Usage aggregation\<close>

text \<open>
  \<^verbatim>\<open>usageAggr\<close> is a Go map from key to a pointer to the values. The model keeps it as an
  association list with one pair for each key, in the order in which the keys were first
  met. The order in which Go ranges over a map is not specified; the model ranges over
  the association list from its head. Where a statement below gives the usage
  measurements of a pass as a list, their order within that list is the model's, and
  nothing else in the statement depends on it.
\<close>

type_synonym usageAggr = "(usageMetricKey \<times> usageMetricValues) list"

definition new_usageMetricValues :: usageMetricValues where
  "new_usageMetricValues = \<lparr>ops = 0, successfulOps = 0, bytesSent = 0, bytesReceived = 0\<rparr>"

text \<open>The body of the innermost loop: one per-category record is added to its key.\<close>

definition add_category :: "string \<Rightarrow> string \<Rightarrow> string \<Rightarrow> UsageCategory \<Rightarrow> usageAggr \<Rightarrow> usageAggr" where
  "add_category st user bucketName cat usageAggr =
     (let key = \<lparr>bucket = bucketName, owner = user, category = Category cat, store = st\<rparr>;
          v = (case map_of usageAggr key of None \<Rightarrow> new_usageMetricValues | Some v \<Rightarrow> v)
      in AList.update key
           (v\<lparr>ops := f64_add (ops v) (f64_of_u64 (Ops cat)),
              successfulOps := f64_add (successfulOps v) (f64_of_u64 (SuccessfulOps cat)),
              bytesSent := f64_add (bytesSent v) (f64_of_u64 (BytesSent cat)),
              bytesReceived := f64_add (bytesReceived v) (f64_of_u64 (BytesReceived cat))\<rparr>)
           usageAggr)"

definition add_bucket :: "string \<Rightarrow> string \<Rightarrow> UsageBucket \<Rightarrow> usageAggr \<Rightarrow> usageAggr" where
  "add_bucket st user b usageAggr =
     (let bucketName = (if Bucket b = [] then ''bucket_root'' else Bucket b)
      in fold (add_category st user bucketName) (Categories b) usageAggr)"

definition add_entry :: "string \<Rightarrow> UsageEntry \<Rightarrow> usageAggr \<Rightarrow> usageAggr" where
  "add_entry st entry usageAggr = fold (add_bucket st (User entry)) (Buckets entry) usageAggr"

definition aggregate_usage :: "string \<Rightarrow> UsageEntry list \<Rightarrow> usageAggr" where
  "aggregate_usage st entries = fold (add_entry st) entries []"

subsection \<open>The statements of a pass\<close>

text \<open>
  What \<^verbatim>\<open>Collect\<close> does to its surroundings: it calls the admin client, it sends the
  result of a constructor to the channel, and it assigns to \<^verbatim>\<open>up\<close>. The body of
  \<^verbatim>\<open>Collect\<close> is modelled as the sequence of these statements in the order of the
  source, built from the answers of the client; \<open>exec\<close> below runs it and stops at the
  first constructor that panics.
\<close>

datatype call = CallGetUsage | CallGetUsers | CallGetUser string
  | CallListUsersBucketsWithStat string

datatype stmt = Query call | Send "error + metric" | Assign_up float64

text \<open>The four sends of the loop over the aggregate, for one key.\<close>

definition usage_metrics :: "usageMetricKey \<times> usageMetricValues \<Rightarrow> stmt list" where
  "usage_metrics kv =
     (let key = fst kv; vals = snd kv;
          labels = [bucket key, owner key, category key, store key]
      in [Send (MustNewConstMetric desc_ops CounterValue (Float64 (ops vals)) labels),
          Send (MustNewConstMetric desc_successfulOps CounterValue (Float64 (successfulOps vals))
            labels),
          Send (MustNewConstMetric desc_bytesSent CounterValue (Float64 (bytesSent vals)) labels),
          Send (MustNewConstMetric desc_bytesReceived CounterValue (Float64 (bytesReceived vals))
            labels)])"

definition emit_usage :: "usageAggr \<Rightarrow> stmt list" where
  "emit_usage usageAggr = concat (map usage_metrics usageAggr)"

subsection \<open>Users and buckets\<close>

text \<open>\<^verbatim>\<open>if field != nil { ch <- ... }\<close>: a send for a present field, nothing for \<^verbatim>\<open>nil\<close>.\<close>

definition if_present :: "'a option \<Rightarrow> ('a \<Rightarrow> error + metric) \<Rightarrow> stmt list" where
  "if_present field emit = (case field of None \<Rightarrow> [] | Some x \<Rightarrow> [Send (emit x)])"

definition enabled_value :: "bool \<Rightarrow> float64" where
  "enabled_value b = (if b then 1 else 0)"

text \<open>The sends for one user record, in the order of the source.\<close>

definition user_metrics :: "string \<Rightarrow> AdminUser \<Rightarrow> stmt list" where
  "user_metrics st user =
     (let labelValues = [ID user, st]
      in if_present (NumObjects (Stat user))
           (\<lambda>n. MustNewConstMetric desc_userTotalObjects GaugeValue (Float64 (f64_of_u64 n)) labelValues)
       @ if_present (Size (Stat user))
           (\<lambda>n. MustNewConstMetric desc_userTotalBytes GaugeValue (Float64 (f64_of_u64 n)) labelValues)
       @ if_present (Enabled (UserQuota user))
           (\<lambda>b. MustNewConstMetric desc_userQuotaEnabled GaugeValue (Float64 (enabled_value b)) labelValues)
       @ if_present (MaxSizeKb (UserQuota user))
           (\<lambda>k. MustNewConstMetric desc_userQuotaMaxSizeBytes GaugeValue
                  (Float64 (f64_of_i64 (k * 1024))) labelValues)
       @ if_present (MaxObjects (UserQuota user))
           (\<lambda>n. MustNewConstMetric desc_userQuotaMaxObjects GaugeValue (Float64 (f64_of_i64 n)) labelValues)
       @ if_present (Enabled (BucketQuota user))
           (\<lambda>b. MustNewConstMetric desc_userBucketQuotaEnabled GaugeValue
                  (Float64 (enabled_value b)) labelValues)
       @ if_present (MaxSizeKb (BucketQuota user))
           (\<lambda>k. MustNewConstMetric desc_userBucketQuotaMaxSizeBytes GaugeValue
                  (Float64 (f64_of_i64 (k * 1024))) labelValues)
       @ if_present (MaxObjects (BucketQuota user))
           (\<lambda>n. MustNewConstMetric desc_userBucketQuotaMaxObjects GaugeValue
                  (Float64 (f64_of_i64 n)) labelValues))"

text \<open>The sends for one bucket record.\<close>

definition bucket_metrics :: "string \<Rightarrow> AdminBucket \<Rightarrow> stmt list" where
  "bucket_metrics st b =
     (let labels = [BucketName b, Owner b, ''bucket_total'', st]
      in if_present (MainNumObjects b)
           (\<lambda>n. MustNewConstMetric desc_bucketUsageObjects GaugeValue (Float64 (f64_of_u64 n)) labels)
       @ if_present (MainSizeActual b)
           (\<lambda>n. MustNewConstMetric desc_bucketUsageBytes GaugeValue (Float64 (f64_of_u64 n)) labels))"

text \<open>
  One turn of the loop over the identifiers. Both \<^verbatim>\<open>continue\<close> statements end the turn;
  the second one comes after the sends for the user's own fields.
\<close>

definition process_user :: "RADOSGWCollector \<Rightarrow> string \<Rightarrow> stmt list" where
  "process_user c uid =
     Query (CallGetUser uid) #
     (case GetUser (client c) uid of
        Inl err \<Rightarrow> []
      | Inr user \<Rightarrow>
          user_metrics (c_store c) user @
          Query (CallListUsersBucketsWithStat uid) #
          (case ListUsersBucketsWithStat (client c) uid of
             Inl err \<Rightarrow> []
           | Inr buckets \<Rightarrow> concat (map (bucket_metrics (c_store c)) buckets)))"

fun process_users :: "RADOSGWCollector \<Rightarrow> string list \<Rightarrow> stmt list" where
  "process_users c [] = []"
| "process_users c (uid # uids) = process_user c uid @ process_users c uids"

subsection \<open>A collection pass\<close>

text \<open>The body of \<^verbatim>\<open>Collect\<close> after the two \<^verbatim>\<open>defer\<close> statements.\<close>

definition Collect_body :: "RADOSGWCollector \<Rightarrow> stmt list" where
  "Collect_body c =
     Query CallGetUsage #
     (case GetUsage (client c) of
        Inl err \<Rightarrow> [Assign_up 0]
      | Inr entries \<Rightarrow>
          (let usageAggr = aggregate_usage (c_store c) entries
           in emit_usage usageAggr @
              Query CallGetUsers #
              (case GetUsers (client c) of
                 Inl err \<Rightarrow> [Assign_up 0]
               | Inr uids \<Rightarrow> process_users c uids)))"

text \<open>
  The state of a pass: the measurements sent to the channel so far, the variable
  \<^verbatim>\<open>up\<close>, and the calls made to the client so far.
\<close>

record collect_state =
  ch :: "metric list"
  up :: float64
  calls :: "call list"

text \<open>
  Running statements from a state: the state they end in and the panic, if a constructor
  panicked. A panic ends the run; the statements after it are not executed.
\<close>

fun exec :: "stmt list \<Rightarrow> collect_state \<Rightarrow> error option \<times> collect_state" where
  "exec [] s = (None, s)"
| "exec (Query q # ss) s = exec ss (s\<lparr>calls := calls s @ [q]\<rparr>)"
| "exec (Assign_up v # ss) s = exec ss (s\<lparr>up := v\<rparr>)"
| "exec (Send (Inr m) # ss) s = exec ss (s\<lparr>ch := ch s @ [m]\<rparr>)"
| "exec (Send (Inl e) # ss) s = (Some e, s)"

text \<open>
  What a pass leaves behind: the measurements sent to the channel, the calls made to the
  client, and the panic that leaves \<^verbatim>\<open>Collect\<close>, if any.
\<close>

record pass =
  sent :: "metric list"
  asked :: "call list"
  panic :: "error option"

text \<open>
  \<^verbatim>\<open>Collect\<close>, here \<open>Collect_metrics\<close>, given the collector and the nanoseconds that the
  clock reports as elapsed when the pass ends. The body runs with \<^verbatim>\<open>up\<close> at 1. Whether
  it returns or panics, the two deferred functions run, the one registered last first:
  the health measurement with the value of \<^verbatim>\<open>up\<close> at that moment, then the duration. A
  panic of a deferred function takes the place of an earlier one. Log records are not part
  of the model.
\<close>

definition Collect_metrics :: "RADOSGWCollector \<Rightarrow> int \<Rightarrow> pass" where
  "Collect_metrics c elapsed =
     (let (p0, s0) = exec (Collect_body c) \<lparr>ch = [], up = 1, calls = []\<rparr>;
          (p1, s1) = exec [Send (MustNewConstMetric desc_up GaugeValue (Float64 (up s0)) [])] s0;
          (p2, s2) = exec [Send (MustNewConstMetric desc_scrapeDurationSeconds GaugeValue
                             (Seconds elapsed) [])] s1
      in \<lparr>sent = ch s2, asked = calls s2,
          panic = (case p2 of Some e \<Rightarrow> Some e
                   | None \<Rightarrow> (case p1 of Some e \<Rightarrow> Some e | None \<Rightarrow> p0))\<rparr>)"

section \<open>Notions of the specification\<close>

text \<open>The descriptors of the usage, the user-scoped and the bucket-scoped measurements.\<close>

definition usage_descs :: "desc set" where
  "usage_descs = {desc_ops, desc_successfulOps, desc_bytesSent, desc_bytesReceived}"

definition user_descs :: "desc set" where
  "user_descs = {desc_userTotalObjects, desc_userTotalBytes, desc_userQuotaEnabled,
     desc_userQuotaMaxSizeBytes, desc_userQuotaMaxObjects, desc_userBucketQuotaEnabled,
     desc_userBucketQuotaMaxSizeBytes, desc_userBucketQuotaMaxObjects}"

definition bucket_descs :: "desc set" where
  "bucket_descs = {desc_bucketUsageObjects, desc_bucketUsageBytes}"

text \<open>
  The four usage counters, as a per-category record of the input carries them and as an
  accumulator of the aggregate carries them.
\<close>

datatype counter = OpsCounter | SuccessfulOpsCounter | BytesSentCounter | BytesReceivedCounter

fun input_counter :: "counter \<Rightarrow> UsageCategory \<Rightarrow> u64" where
  "input_counter OpsCounter = Ops"
| "input_counter SuccessfulOpsCounter = SuccessfulOps"
| "input_counter BytesSentCounter = BytesSent"
| "input_counter BytesReceivedCounter = BytesReceived"

fun aggr_counter :: "counter \<Rightarrow> usageMetricValues \<Rightarrow> float64" where
  "aggr_counter OpsCounter = ops"
| "aggr_counter SuccessfulOpsCounter = successfulOps"
| "aggr_counter BytesSentCounter = bytesSent"
| "aggr_counter BytesReceivedCounter = bytesReceived"

text \<open>
  The per-category records of an input in the order in which the source visits them, each
  with the key fields it is grouped by: the bucket name (\<open>bucket_root\<close> for the empty
  name), the user of its entry, its category, and the store label.
\<close>

definition usage_records :: "string \<Rightarrow> UsageEntry list \<Rightarrow> (usageMetricKey \<times> UsageCategory) list" where
  "usage_records st entries =
     concat (map (\<lambda>entry.
       concat (map (\<lambda>b.
         map (\<lambda>cat. (\<lparr>bucket = (if Bucket b = [] then ''bucket_root'' else Bucket b),
                        owner = User entry, category = Category cat, store = st\<rparr>, cat))
           (Categories b))
         (Buckets entry)))
       entries)"

text \<open>The exact sum of a counter over a list of records, and over those of one key.\<close>

definition records_total :: "counter \<Rightarrow> (usageMetricKey \<times> UsageCategory) list \<Rightarrow> int" where
  "records_total cn rs = sum_list (map (\<lambda>r. uint (input_counter cn (snd r))) rs)"

definition records_group_total ::
    "counter \<Rightarrow> (usageMetricKey \<times> UsageCategory) list \<Rightarrow> usageMetricKey \<Rightarrow> int" where
  "records_group_total cn rs key =
     sum_list (map (\<lambda>r. uint (input_counter cn (snd r))) (filter (\<lambda>r. fst r = key) rs))"

text \<open>The exact sum of a counter over all records of an input, and over those of one key.\<close>

definition input_total :: "counter \<Rightarrow> string \<Rightarrow> UsageEntry list \<Rightarrow> int" where
  "input_total cn st entries = records_total cn (usage_records st entries)"

definition input_group_total :: "counter \<Rightarrow> string \<Rightarrow> UsageEntry list \<Rightarrow> usageMetricKey \<Rightarrow> int" where
  "input_group_total cn st entries key = records_group_total cn (usage_records st entries) key"

text \<open>The sum of a counter over all pairs of an aggregate, and over those of one key.\<close>

definition aggr_total :: "counter \<Rightarrow> usageAggr \<Rightarrow> int" where
  "aggr_total cn usageAggr = sum_list (map (\<lambda>kv. aggr_counter cn (snd kv)) usageAggr)"

definition aggr_group_total :: "counter \<Rightarrow> usageAggr \<Rightarrow> usageMetricKey \<Rightarrow> int" where
  "aggr_group_total cn usageAggr key =
     sum_list (map (\<lambda>kv. aggr_counter cn (snd kv)) (filter (\<lambda>kv. fst kv = key) usageAggr))"

text \<open>The counter that an aggregate holds for a key, 0 when the key is not in it.\<close>

definition key_counter :: "counter \<Rightarrow> usageAggr \<Rightarrow> usageMetricKey \<Rightarrow> int" where
  "key_counter cn usageAggr key =
     (case map_of usageAggr key of None \<Rightarrow> 0 | Some v \<Rightarrow> aggr_counter cn v)"

text \<open>
  The \<^verbatim>\<open>float64\<close> sum of a counter over a list of records: each is converted and added,
  in the order of the list, to an accumulator that starts at 0.
\<close>

definition f64_total :: "counter \<Rightarrow> (usageMetricKey \<times> UsageCategory) list \<Rightarrow> float64" where
  "f64_total cn rs = fold (\<lambda>r acc. f64_add acc (f64_of_u64 (input_counter cn (snd r)))) rs 0"

text \<open>The body of the innermost loop, for a record that comes with its key.\<close>

definition add_record :: "usageMetricKey \<times> UsageCategory \<Rightarrow> usageAggr \<Rightarrow> usageAggr" where
  "add_record r usageAggr =
     (let key = fst r; cat = snd r;
          v = (case map_of usageAggr key of None \<Rightarrow> new_usageMetricValues | Some v \<Rightarrow> v)
      in AList.update key
           (v\<lparr>ops := f64_add (ops v) (f64_of_u64 (Ops cat)),
              successfulOps := f64_add (successfulOps v) (f64_of_u64 (SuccessfulOps cat)),
              bytesSent := f64_add (bytesSent v) (f64_of_u64 (BytesSent cat)),
              bytesReceived := f64_add (bytesReceived v) (f64_of_u64 (BytesReceived cat))\<rparr>)
           usageAggr)"

text \<open>The label values under which the usage measurements of a key are emitted.\<close>

definition key_labels :: "usageMetricKey \<Rightarrow> string list" where
  "key_labels key = [bucket key, owner key, category key, store key]"

text \<open>A measurement, as the channel receives it.\<close>

definition measurement :: "desc \<Rightarrow> valueType \<Rightarrow> metricValue \<Rightarrow> string list \<Rightarrow> metric" where
  "measurement d t v labelValues =
     \<lparr>m_desc = d, m_valueType = t, m_value = v, m_labelValues = labelValues\<rparr>"

text \<open>None for an absent field, one measurement for a present one.\<close>

definition when_present :: "'a option \<Rightarrow> ('a \<Rightarrow> metric) \<Rightarrow> metric list" where
  "when_present field f = (case field of None \<Rightarrow> [] | Some x \<Rightarrow> [f x])"

text \<open>The measurements of a descriptor in a list, and their number.\<close>

definition of_desc :: "desc \<Rightarrow> metric list \<Rightarrow> metric list" where
  "of_desc d ms = filter (\<lambda>m. m_desc m = d) ms"


text \<open>
  A statement that does not panic, and the measurements that a sequence of statements
  sends when all of them are executed.
\<close>

fun runs :: "stmt \<Rightarrow> bool" where
  "runs (Send (Inl e)) = False"
| "runs s = True"

fun sends :: "stmt list \<Rightarrow> metric list" where
  "sends [] = []"
| "sends (Send (Inr m) # ss) = m # sends ss"
| "sends (s # ss) = sends ss"

fun queries :: "stmt list \<Rightarrow> call list" where
  "queries [] = []"
| "queries (Query q # ss) = q # queries ss"
| "queries (s # ss) = queries ss"

text \<open>
  The label values of the usage measurements are valid UTF-8: the store label and the
  strings of the usage entries.
\<close>

definition valid_usage_labels :: "string \<Rightarrow> UsageEntry list \<Rightarrow> bool" where
  "valid_usage_labels st entries \<longleftrightarrow>
     ValidString st \<and>
     list_all (\<lambda>entry. ValidString (User entry) \<and>
       list_all (\<lambda>b. ValidString (Bucket b) \<and>
         list_all (\<lambda>cat. ValidString (Category cat)) (Categories b)) (Buckets entry)) entries"

text \<open>The label values of the measurements of one identifier are valid UTF-8.\<close>

definition valid_user_labels :: "RADOSGWCollector \<Rightarrow> string \<Rightarrow> bool" where
  "valid_user_labels c uid \<longleftrightarrow>
     (case GetUser (client c) uid of
        Inl err \<Rightarrow> True
      | Inr user \<Rightarrow>
          ValidString (ID user) \<and>
          (case ListUsersBucketsWithStat (client c) uid of
             Inl err \<Rightarrow> True
           | Inr buckets \<Rightarrow>
               list_all (\<lambda>b. ValidString (BucketName b) \<and> ValidString (Owner b)) buckets))"

text \<open>
  Every string that a pass of the collector uses as a label value is valid UTF-8: the
  store label, the strings of the usage entries, the identifiers of the user records and
  the names and owners of the bucket records.
\<close>

definition valid_labels :: "RADOSGWCollector \<Rightarrow> bool" where
  "valid_labels c \<longleftrightarrow>
     ValidString (c_store c) \<and>
     (case GetUsage (client c) of
        Inl err \<Rightarrow> True
      | Inr entries \<Rightarrow> valid_usage_labels (c_store c) entries) \<and>
     (case GetUsers (client c) of
        Inl err \<Rightarrow> True
      | Inr uids \<Rightarrow> list_all (valid_user_labels c) uids)"

text \<open>
  A fatal query failed in a pass: the usage query or the user-listing query was made and
  the client answered it with an error.
\<close>

definition fatal_query_failed :: "RADOSGWCollector \<Rightarrow> pass \<Rightarrow> bool" where
  "fatal_query_failed c p \<longleftrightarrow>
     (CallGetUsage \<in> set (asked p) \<and> isl (GetUsage (client c))) \<or>
     (CallGetUsers \<in> set (asked p) \<and> isl (GetUsers (client c)))"

text \<open>The health and the duration measurement, in the order in which they are sent.\<close>

definition meta_measurements :: "float64 \<Rightarrow> int \<Rightarrow> metric list" where
  "meta_measurements h elapsed =
     [measurement desc_up GaugeValue (Float64 h) [],
      measurement desc_scrapeDurationSeconds GaugeValue (Seconds elapsed) []]"

text \<open>
  The measurements of one key of the aggregate, of one user record and of one bucket
  record, as the channel receives them when no constructor panics: the four counters of
  the key; one measurement for each present field of the record, in the order of the
  source, with the value that the source computes.
\<close>

definition usage_measurements :: "usageMetricKey \<times> usageMetricValues \<Rightarrow> metric list" where
  "usage_measurements kv =
     [measurement desc_ops CounterValue (Float64 (ops (snd kv))) (key_labels (fst kv)),
      measurement desc_successfulOps CounterValue (Float64 (successfulOps (snd kv)))
        (key_labels (fst kv)),
      measurement desc_bytesSent CounterValue (Float64 (bytesSent (snd kv))) (key_labels (fst kv)),
      measurement desc_bytesReceived CounterValue (Float64 (bytesReceived (snd kv)))
        (key_labels (fst kv))]"

definition user_measurements :: "string \<Rightarrow> AdminUser \<Rightarrow> metric list" where
  "user_measurements st user =
     when_present (NumObjects (Stat user))
       (\<lambda>n. measurement desc_userTotalObjects GaugeValue (Float64 (f64_of_u64 n)) [ID user, st])
     @ when_present (Size (Stat user))
       (\<lambda>n. measurement desc_userTotalBytes GaugeValue (Float64 (f64_of_u64 n)) [ID user, st])
     @ when_present (Enabled (UserQuota user))
       (\<lambda>b. measurement desc_userQuotaEnabled GaugeValue (Float64 (if b then 1 else 0))
              [ID user, st])
     @ when_present (MaxSizeKb (UserQuota user))
       (\<lambda>k. measurement desc_userQuotaMaxSizeBytes GaugeValue (Float64 (f64_of_i64 (k * 1024)))
              [ID user, st])
     @ when_present (MaxObjects (UserQuota user))
       (\<lambda>n. measurement desc_userQuotaMaxObjects GaugeValue (Float64 (f64_of_i64 n)) [ID user, st])
     @ when_present (Enabled (BucketQuota user))
       (\<lambda>b. measurement desc_userBucketQuotaEnabled GaugeValue (Float64 (if b then 1 else 0))
              [ID user, st])
     @ when_present (MaxSizeKb (BucketQuota user))
       (\<lambda>k. measurement desc_userBucketQuotaMaxSizeBytes GaugeValue
              (Float64 (f64_of_i64 (k * 1024))) [ID user, st])
     @ when_present (MaxObjects (BucketQuota user))
       (\<lambda>n. measurement desc_userBucketQuotaMaxObjects GaugeValue (Float64 (f64_of_i64 n))
              [ID user, st])"

definition bucket_measurements :: "string \<Rightarrow> AdminBucket \<Rightarrow> metric list" where
  "bucket_measurements st b =
     when_present (MainNumObjects b)
       (\<lambda>n. measurement desc_bucketUsageObjects GaugeValue (Float64 (f64_of_u64 n))
              [BucketName b, Owner b, ''bucket_total'', st])
     @ when_present (MainSizeActual b)
       (\<lambda>n. measurement desc_bucketUsageBytes GaugeValue (Float64 (f64_of_u64 n))
              [BucketName b, Owner b, ''bucket_total'', st])"

text \<open>
  The measurements of one identifier: those of its user record, then those of its bucket
  records; none when the detail fetch fails, and the user's own when only the bucket-list
  fetch fails.
\<close>

definition user_block :: "RADOSGWCollector \<Rightarrow> string \<Rightarrow> metric list" where
  "user_block c uid =
     (case GetUser (client c) uid of
        Inl err \<Rightarrow> []
      | Inr user \<Rightarrow>
          user_measurements (c_store c) user @
          (case ListUsersBucketsWithStat (client c) uid of
             Inl err \<Rightarrow> []
           | Inr buckets \<Rightarrow> concat (map (bucket_measurements (c_store c)) buckets)))"

text \<open>The usage measurements of a pass whose usage query was answered with \<open>entries\<close>.\<close>

definition usage_block :: "string \<Rightarrow> UsageEntry list \<Rightarrow> metric list" where
  "usage_block st entries = concat (map usage_measurements (aggregate_usage st entries))"

section \<open>Example answers of a gateway\<close>

definition ex_cat :: UsageCategory where
  "ex_cat = \<lparr>Category = ''get_obj'', BytesSent = 100, BytesReceived = 0, Ops = 3,
     SuccessfulOps = 3\<rparr>"

definition ex_entries :: "UsageEntry list" where
  "ex_entries = [\<lparr>User = ''alice'', Buckets = [\<lparr>Bucket = ''photos'', Categories = [ex_cat]\<rparr>]\<rparr>]"

definition ex_user :: AdminUser where
  "ex_user = \<lparr>ID = ''alice'',
     Stat = \<lparr>Size = None, NumObjects = Some 7\<rparr>,
     UserQuota = \<lparr>Enabled = Some True, MaxSizeKb = Some 10, MaxObjects = Some (- 1)\<rparr>,
     BucketQuota = \<lparr>Enabled = None, MaxSizeKb = None, MaxObjects = None\<rparr>\<rparr>"

definition ex_bucket :: AdminBucket where
  "ex_bucket = \<lparr>BucketName = ''photos'', Owner = ''alice'', MainNumObjects = Some 0,
     MainSizeActual = None\<rparr>"

text \<open>
  A gateway that knows \<open>alice\<close> and \<open>bob\<close> and fails on the detail of \<open>bob\<close>, and
  the collector that asks it.
\<close>

definition ex_client :: Client where
  "ex_client = \<lparr>GetUsage = Inr ex_entries,
     GetUsers = Inr [''bob'', ''alice''],
     GetUser = (\<lambda>uid. if uid = ''alice'' then Inr ex_user else Inl (Error ''NoSuchUser'')),
     ListUsersBucketsWithStat =
       (\<lambda>uid. if uid = ''alice'' then Inr [ex_bucket] else Inl (Error ''NoSuchUser''))\<rparr>"

definition ex_collector :: RADOSGWCollector where
  "ex_collector = \<lparr>client = ex_client, c_store = ''s''\<rparr>"

text \<open>The same gateway when the user listing fails, and when the usage query fails.\<close>

definition ex_listing_fails :: RADOSGWCollector where
  "ex_listing_fails = \<lparr>client = ex_client\<lparr>GetUsers := Inl (Error ''AccessDenied'')\<rparr>, c_store = ''s''\<rparr>"

definition ex_usage_fails :: RADOSGWCollector where
  "ex_usage_fails = \<lparr>client = ex_client\<lparr>GetUsage := Inl (Error ''AccessDenied'')\<rparr>, c_store = ''s''\<rparr>"

text \<open>The same gateway when the bucket listing of \<open>alice\<close> fails.\<close>

definition ex_buckets_fail :: RADOSGWCollector where
  "ex_buckets_fail =
     \<lparr>client = ex_client\<lparr>ListUsersBucketsWithStat := (\<lambda>uid. Inl (Error ''Timeout''))\<rparr>,
      c_store = ''s''\<rparr>"

text \<open>A per-category record with the same value in each of its four counters.\<close>

definition cat_of :: "u64 \<Rightarrow> UsageCategory" where
  "cat_of n = \<lparr>Category = ''get_obj'', BytesSent = n, BytesReceived = n, Ops = n,
     SuccessfulOps = n\<rparr>"

text \<open>
  Usage of one user on two buckets, with a counter of \<open>2 ^ 53\<close> on the first, and usage
  on one bucket with a counter of \<open>2 ^ 53 + 2\<close> before a small one.
\<close>

definition ex_large_entries :: "UsageEntry list" where
  "ex_large_entries =
     [\<lparr>User = ''alice'',
       Buckets = [\<lparr>Bucket = ''photos'', Categories = [cat_of (2 ^ 53), cat_of 1]\<rparr>,
                  \<lparr>Bucket = ''logs'', Categories = [cat_of 1, cat_of 1]\<rparr>]\<rparr>]"

definition ex_tie_entries :: "UsageEntry list" where
  "ex_tie_entries =
     [\<lparr>User = ''alice'',
       Buckets = [\<lparr>Bucket = ''photos'',
                   Categories = [cat_of (2 ^ 53 + 2), cat_of 3]\<rparr>]\<rparr>]"

definition ex_key :: usageMetricKey where
  "ex_key = \<lparr>bucket = ''photos'', owner = ''alice'', category = ''get_obj'', store = ''s''\<rparr>"

text \<open>Usage on a bucket without a name, and a user with a quota of \<open>2 ^ 53\<close> KiB.\<close>

definition ex_root_entries :: "UsageEntry list" where
  "ex_root_entries = [\<lparr>User = ''alice'', Buckets = [\<lparr>Bucket = [], Categories = [ex_cat]\<rparr>]\<rparr>]"

definition ex_user_huge_quota :: AdminUser where
  "ex_user_huge_quota =
     ex_user\<lparr>UserQuota := \<lparr>Enabled = Some True, MaxSizeKb = Some (2 ^ 53), MaxObjects = None\<rparr>\<rparr>"

text \<open>The same gateway when the user quota of \<open>alice\<close> is \<open>2 ^ 53\<close> KiB.\<close>

definition ex_huge_quota :: RADOSGWCollector where
  "ex_huge_quota =
     \<lparr>client = ex_client\<lparr>GetUser :=
        (\<lambda>uid. if uid = ''alice'' then Inr ex_user_huge_quota else Inl (Error ''NoSuchUser''))\<rparr>,
      c_store = ''s''\<rparr>"

text \<open>The same gateway asked by a collector whose store label is the byte \<open>0xFF\<close>.\<close>

definition ex_bad_store :: RADOSGWCollector where
  "ex_bad_store = \<lparr>client = ex_client, c_store = [CHR 0xFF]\<rparr>"

section \<open>Rounding to a float64\<close>

lemma bit_len_numeral [simp]:
  "bit_len 0 = 0"
  "bit_len (Suc 0) = 1"
  "bit_len 1 = 1"
  "bit_len (numeral Num.One) = 1"
  "bit_len (numeral (Num.Bit0 n)) = Suc (bit_len (numeral n))"
  "bit_len (numeral (Num.Bit1 n)) = Suc (bit_len (numeral n))"
proof -
  show "bit_len 0 = 0" by (simp add: bit_len.simps)
  show s: "bit_len (Suc 0) = 1" by (simp add: bit_len.simps [of "Suc 0"] bit_len.simps [of 0])
  then show "bit_len 1 = 1" by simp
  from s show "bit_len (numeral Num.One) = 1" by simp
  show "bit_len (numeral (Num.Bit0 n)) = Suc (bit_len (numeral n))"
    by (subst bit_len.simps) simp
  show "bit_len (numeral (Num.Bit1 n)) = Suc (bit_len (numeral n))"
    by (subst bit_len.simps) simp
qed

section \<open>Constructors and statements\<close>

lemma metric_fields [simp]:
  "m_desc (measurement d t v ls) = d"
  "m_valueType (measurement d t v ls) = t"
  "m_value (measurement d t v ls) = v"
  "m_labelValues (measurement d t v ls) = ls"
  by (simp_all add: measurement_def)

text \<open>A constructor returns the measurement or panics; it never returns another one.\<close>

lemma MustNewConstMetric_cases:
  "MustNewConstMetric d t v ls = Inr (measurement d t v ls) \<or>
   (\<exists>e. MustNewConstMetric d t v ls = Inl e)"
  by (simp add: MustNewConstMetric_def measurement_def)

lemma MustNewConstMetric_valid:
  "length ls = length (variableLabels d) \<Longrightarrow> list_all ValidString ls \<Longrightarrow>
   MustNewConstMetric d t v ls = Inr (measurement d t v ls)"
  by (simp add: MustNewConstMetric_def measurement_def)

lemma MustNewConstMetric_Inr:
  "MustNewConstMetric d t v ls = Inr m \<Longrightarrow> m = measurement d t v ls"
  by (simp add: MustNewConstMetric_def measurement_def split: if_splits)

lemma MustNewConstMetric_invalid:
  "\<not> list_all ValidString ls \<Longrightarrow> isl (MustNewConstMetric d t v ls)"
  by (simp add: MustNewConstMetric_def)

lemma sends_append [simp]: "sends (ss @ ss') = sends ss @ sends ss'"
  by (induction ss rule: sends.induct) simp_all

lemma queries_append [simp]: "queries (ss @ ss') = queries ss @ queries ss'"
  by (induction ss rule: queries.induct) simp_all

lemma sends_concat: "sends (concat sss) = concat (map sends sss)"
  by (induction sss) simp_all

lemma queries_concat: "queries (concat sss) = concat (map queries sss)"
  by (induction sss) simp_all



subsection \<open>Running statements\<close>

lemma exec_append:
  "exec (ss @ ss') s =
     (case exec ss s of (None, s') \<Rightarrow> exec ss' s' | (Some e, s') \<Rightarrow> (Some e, s'))"
  by (induction ss s rule: exec.induct) simp_all

lemma exec_panic_iff: "fst (exec ss s) = None \<longleftrightarrow> list_all runs ss"
  by (induction ss s rule: exec.induct) simp_all

lemma exec_ch: "ch (snd (exec ss s)) = ch s @ sends (takeWhile runs ss)"
  by (induction ss s rule: exec.induct) simp_all

lemma exec_calls: "calls (snd (exec ss s)) = calls s @ queries (takeWhile runs ss)"
  by (induction ss s rule: exec.induct) simp_all

lemma exec_up: "\<forall>v. Assign_up v \<notin> set ss \<Longrightarrow> up (snd (exec ss s)) = up s"
  by (induction ss s rule: exec.induct) simp_all

lemma takeWhile_runs_all: "list_all runs ss \<Longrightarrow> takeWhile runs ss = ss"
  by (simp add: list_all_iff)

text \<open>Statements that all run add their measurements and their calls to the state.\<close>

lemma exec_runs:
  assumes "list_all runs ss" and "\<forall>v. Assign_up v \<notin> set ss"
  shows "exec ss s = (None, s\<lparr>ch := ch s @ sends ss, calls := calls s @ queries ss\<rparr>)"
proof -
  have "fst (exec ss s) = None"
    using assms(1) by (simp add: exec_panic_iff)
  moreover have "ch (snd (exec ss s)) = ch s @ sends ss"
    using assms(1) by (simp add: exec_ch takeWhile_runs_all)
  moreover have "calls (snd (exec ss s)) = calls s @ queries ss"
    using assms(1) by (simp add: exec_calls takeWhile_runs_all)
  moreover have "up (snd (exec ss s)) = up s"
    using assms(2) by (rule exec_up)
  ultimately show ?thesis
    by (cases "exec ss s") (auto intro: collect_state.equality)
qed

section \<open>What the statements of a phase send\<close>

lemma if_present_Some [simp]: "if_present (Some x) emit = [Send (emit x)]"
  by (simp add: if_present_def)

lemma if_present_None [simp]: "if_present None emit = []"
  by (simp add: if_present_def)

lemma when_present_Some [simp]: "when_present (Some x) f = [f x]"
  by (simp add: when_present_def)

lemma when_present_None [simp]: "when_present None f = []"
  by (simp add: when_present_def)

text \<open>
  A conditional send that runs sends the measurement; with valid label values of the
  right number it runs.
\<close>

lemma sends_if_present:
  "list_all runs (if_present field (\<lambda>x. MustNewConstMetric d t (v x) ls)) \<Longrightarrow>
   sends (if_present field (\<lambda>x. MustNewConstMetric d t (v x) ls)) =
     when_present field (\<lambda>x. measurement d t (v x) ls)"
  by (cases field) (simp_all add: MustNewConstMetric_def measurement_def split: if_splits)

lemma runs_if_present:
  "length ls = length (variableLabels d) \<Longrightarrow> list_all ValidString ls \<Longrightarrow>
   list_all runs (if_present field (\<lambda>x. MustNewConstMetric d t (v x) ls))"
  by (cases field) (simp_all add: MustNewConstMetric_valid)

lemma not_runs_if_present:
  "\<not> list_all ValidString ls \<Longrightarrow>
   list_all runs (if_present field (\<lambda>x. MustNewConstMetric d t (v x) ls)) \<longleftrightarrow> field = None"
  by (cases field) (simp_all add: MustNewConstMetric_def)

lemma no_assign_if_present: "Assign_up u \<notin> set (if_present field emit)"
  by (cases field) simp_all

lemma queries_if_present [simp]: "queries (if_present field emit) = []"
  by (cases field) simp_all

subsection \<open>Usage\<close>

lemma sends_usage_metrics:
  "list_all runs (usage_metrics kv) \<Longrightarrow> sends (usage_metrics kv) = usage_measurements kv"
  using MustNewConstMetric_cases [of desc_ops CounterValue "Float64 (ops (snd kv))" "key_labels (fst kv)"]
    MustNewConstMetric_cases [of desc_successfulOps CounterValue "Float64 (successfulOps (snd kv))" "key_labels (fst kv)"]
    MustNewConstMetric_cases [of desc_bytesSent CounterValue "Float64 (bytesSent (snd kv))" "key_labels (fst kv)"]
    MustNewConstMetric_cases [of desc_bytesReceived CounterValue "Float64 (bytesReceived (snd kv))" "key_labels (fst kv)"]
  by (auto simp: usage_metrics_def usage_measurements_def key_labels_def Let_def)

lemma runs_usage_metrics:
  "list_all ValidString (key_labels (fst kv)) \<Longrightarrow> list_all runs (usage_metrics kv)"
  by (simp add: usage_metrics_def Let_def key_labels_def MustNewConstMetric_valid bucketLabels_def)

lemma no_assign_usage_metrics: "Assign_up u \<notin> set (usage_metrics kv)"
  by (simp add: usage_metrics_def Let_def)

lemma queries_usage_metrics [simp]: "queries (usage_metrics kv) = []"
  by (simp add: usage_metrics_def Let_def)

lemma sends_emit_usage:
  "list_all runs (emit_usage a) \<Longrightarrow> sends (emit_usage a) = concat (map usage_measurements a)"
  by (induction a) (simp_all add: emit_usage_def sends_usage_metrics)

lemma runs_emit_usage:
  "\<forall>kv\<in>set a. list_all ValidString (key_labels (fst kv)) \<Longrightarrow> list_all runs (emit_usage a)"
  by (induction a) (simp_all add: emit_usage_def runs_usage_metrics)

lemma no_assign_emit_usage: "Assign_up u \<notin> set (emit_usage a)"
  by (induction a) (simp_all add: emit_usage_def no_assign_usage_metrics)

lemma queries_emit_usage [simp]: "queries (emit_usage a) = []"
  by (induction a) (simp_all add: emit_usage_def)

lemma queries_takeWhile_emit_usage [simp]: "queries (takeWhile P (emit_usage a)) = []"
proof -
  have "queries (takeWhile P ss) = []" if "queries ss = []" for ss
    using that by (induction ss rule: queries.induct) (simp_all split: if_splits)
  then show ?thesis by simp
qed

subsection \<open>Users and buckets\<close>

lemma sends_user_metrics:
  "list_all runs (user_metrics st u) \<Longrightarrow> sends (user_metrics st u) = user_measurements st u"
  by (simp add: user_metrics_def user_measurements_def Let_def sends_if_present
      enabled_value_def)

lemma runs_user_metrics:
  "ValidString (ID u) \<Longrightarrow> ValidString st \<Longrightarrow> list_all runs (user_metrics st u)"
  by (simp add: user_metrics_def Let_def runs_if_present userLabels_def)

lemma no_assign_user_metrics: "Assign_up v \<notin> set (user_metrics st u)"
  by (simp add: user_metrics_def Let_def no_assign_if_present)

lemma queries_user_metrics [simp]: "queries (user_metrics st u) = []"
  by (simp add: user_metrics_def Let_def)

lemma sends_bucket_metrics:
  "list_all runs (bucket_metrics st b) \<Longrightarrow> sends (bucket_metrics st b) = bucket_measurements st b"
  by (simp add: bucket_metrics_def bucket_measurements_def Let_def sends_if_present)

lemma runs_bucket_metrics:
  "ValidString (BucketName b) \<Longrightarrow> ValidString (Owner b) \<Longrightarrow> ValidString st \<Longrightarrow>
   list_all runs (bucket_metrics st b)"
proof -
  have "ValidString ''bucket_total''"
    by (simp add: ValidString_def)
  then show "ValidString (BucketName b) \<Longrightarrow> ValidString (Owner b) \<Longrightarrow> ValidString st \<Longrightarrow>
      list_all runs (bucket_metrics st b)"
    by (simp add: bucket_metrics_def Let_def runs_if_present bucketLabels_def)
qed

lemma no_assign_bucket_metrics: "Assign_up v \<notin> set (bucket_metrics st b)"
  by (simp add: bucket_metrics_def Let_def no_assign_if_present)

lemma queries_bucket_metrics [simp]: "queries (bucket_metrics st b) = []"
  by (simp add: bucket_metrics_def Let_def)

lemma sends_buckets:
  "list_all runs (concat (map (bucket_metrics st) bs)) \<Longrightarrow>
   sends (concat (map (bucket_metrics st) bs)) = concat (map (bucket_measurements st) bs)"
  by (induction bs) (simp_all add: sends_bucket_metrics)

lemma runs_buckets:
  "ValidString st \<Longrightarrow> list_all (\<lambda>b. ValidString (BucketName b) \<and> ValidString (Owner b)) bs \<Longrightarrow>
   list_all runs (concat (map (bucket_metrics st) bs))"
  by (induction bs) (simp_all add: runs_bucket_metrics)

lemma no_assign_buckets: "Assign_up v \<notin> set (concat (map (bucket_metrics st) bs))"
  by (induction bs) (simp_all add: no_assign_bucket_metrics)

lemma sends_process_user:
  "list_all runs (process_user c uid) \<Longrightarrow> sends (process_user c uid) = user_block c uid"
  by (simp add: process_user_def user_block_def sends_user_metrics sends_buckets
      split: sum.splits)

lemma runs_process_user:
  "ValidString (c_store c) \<Longrightarrow> valid_user_labels c uid \<Longrightarrow> list_all runs (process_user c uid)"
  by (simp add: process_user_def valid_user_labels_def runs_user_metrics runs_buckets
      split: sum.splits)

lemma no_assign_process_user: "Assign_up v \<notin> set (process_user c uid)"
  by (simp add: process_user_def no_assign_user_metrics no_assign_bucket_metrics
      split: sum.splits)

lemma sends_process_users:
  "list_all runs (process_users c uids) \<Longrightarrow>
   sends (process_users c uids) = concat (map (user_block c) uids)"
  by (induction uids) (simp_all add: sends_process_user)

lemma runs_process_users:
  "ValidString (c_store c) \<Longrightarrow> list_all (valid_user_labels c) uids \<Longrightarrow>
   list_all runs (process_users c uids)"
  by (induction uids) (simp_all add: runs_process_user)

lemma no_assign_process_users: "Assign_up v \<notin> set (process_users c uids)"
  by (induction uids) (simp_all add: no_assign_process_user)

section \<open>The aggregate as a fold over the records\<close>

lemma add_category_add_record:
  "add_category st user bucketName cat usageAggr =
     add_record (\<lparr>bucket = bucketName, owner = user, category = Category cat, store = st\<rparr>, cat)
       usageAggr"
  by (simp add: add_category_def add_record_def Let_def)

lemma fold_concat_map: "fold f (concat (map g xs)) a = fold (\<lambda>x. fold f (g x)) xs a"
  by (induction xs arbitrary: a) simp_all

lemma add_bucket_fold:
  "add_bucket st user b usageAggr =
     fold add_record
       (map (\<lambda>cat. (\<lparr>bucket = (if Bucket b = [] then ''bucket_root'' else Bucket b),
                       owner = user, category = Category cat, store = st\<rparr>, cat))
          (Categories b))
       usageAggr"
proof -
  have "add_category st user bucketName =
      (\<lambda>cat. add_record
         (\<lparr>bucket = bucketName, owner = user, category = Category cat, store = st\<rparr>, cat))"
    for bucketName
    by (intro ext) (rule add_category_add_record)
  then show ?thesis
    by (simp add: add_bucket_def Let_def fold_map comp_def)
qed

lemma add_entry_fold:
  "add_entry st entry usageAggr =
     fold add_record
       (concat (map (\<lambda>b.
          map (\<lambda>cat. (\<lparr>bucket = (if Bucket b = [] then ''bucket_root'' else Bucket b),
                         owner = User entry, category = Category cat, store = st\<rparr>, cat))
            (Categories b))
          (Buckets entry)))
       usageAggr"
proof -
  have "add_bucket st (User entry) =
      (\<lambda>b. fold add_record
         (map (\<lambda>cat. (\<lparr>bucket = (if Bucket b = [] then ''bucket_root'' else Bucket b),
                         owner = User entry, category = Category cat, store = st\<rparr>, cat))
            (Categories b)))"
    by (intro ext) (rule add_bucket_fold)
  then show ?thesis
    by (simp only: add_entry_def fold_concat_map)
qed

lemma aggregate_usage_fold:
  "aggregate_usage st entries = fold add_record (usage_records st entries) []"
proof -
  have "add_entry st =
      (\<lambda>entry. fold add_record
         (concat (map (\<lambda>b.
            map (\<lambda>cat. (\<lparr>bucket = (if Bucket b = [] then ''bucket_root'' else Bucket b),
                           owner = User entry, category = Category cat, store = st\<rparr>, cat))
              (Categories b))
            (Buckets entry))))"
    by (intro ext) (rule add_entry_fold)
  then show ?thesis
    by (simp only: aggregate_usage_def usage_records_def fold_concat_map)
qed

lemma usage_records_append:
  "usage_records st (es @ es') = usage_records st es @ usage_records st es'"
  by (simp add: usage_records_def)

lemma usage_records_member:
  "entry \<in> set entries \<Longrightarrow> b \<in> set (Buckets entry) \<Longrightarrow> cat \<in> set (Categories b) \<Longrightarrow>
   (\<lparr>bucket = (if Bucket b = [] then ''bucket_root'' else Bucket b), owner = User entry,
      category = Category cat, store = st\<rparr>, cat) \<in> set (usage_records st entries)"
  unfolding usage_records_def by auto

subsection \<open>Keys\<close>

lemma keys_add_record: "fst ` set (add_record r a) = insert (fst r) (fst ` set a)"
  by (simp add: add_record_def Let_def dom_update)

lemma keys_fold_add_record:
  "fst ` set (fold add_record rs a) = fst ` set a \<union> fst ` set rs"
  by (induction rs arbitrary: a) (auto simp: keys_add_record)

lemma distinct_add_record: "distinct (map fst a) \<Longrightarrow> distinct (map fst (add_record r a))"
  by (simp add: add_record_def Let_def distinct_update)

lemma distinct_fold_add_record:
  "distinct (map fst a) \<Longrightarrow> distinct (map fst (fold add_record rs a))"
  by (induction rs arbitrary: a) (simp_all add: distinct_add_record)


section \<open>The shape of a pass\<close>

subsection \<open>Valid label values\<close>

lemma ValidString_bucket_root: "ValidString ''bucket_root''"
  by (simp add: ValidString_def)

lemma ValidString_Nil: "ValidString []"
  by (simp add: ValidString_def)

lemma valid_record_labels:
  assumes "valid_usage_labels st entries" and "r \<in> set (usage_records st entries)"
  shows "list_all ValidString (key_labels (fst r))"
  using assms ValidString_bucket_root
  by (auto simp: valid_usage_labels_def usage_records_def key_labels_def list_all_iff)

lemma valid_aggregate_labels:
  assumes "valid_usage_labels st entries" and "kv \<in> set (aggregate_usage st entries)"
  shows "list_all ValidString (key_labels (fst kv))"
proof -
  have "fst kv \<in> fst ` set (aggregate_usage st entries)"
    using assms(2) by simp
  then have "fst kv \<in> fst ` set (usage_records st entries)"
    by (simp add: aggregate_usage_fold keys_fold_add_record)
  then obtain r where "r \<in> set (usage_records st entries)" and "fst kv = fst r"
    by auto
  then show ?thesis
    using valid_record_labels [OF assms(1)] by simp
qed

lemma runs_emit_aggregate:
  "valid_usage_labels st entries \<Longrightarrow> list_all runs (emit_usage (aggregate_usage st entries))"
  by (rule runs_emit_usage) (simp add: valid_aggregate_labels)

subsection \<open>The four ways through the body\<close>

lemma deferred_sends:
  "MustNewConstMetric desc_up GaugeValue v [] = Inr (measurement desc_up GaugeValue v [])"
  "MustNewConstMetric desc_scrapeDurationSeconds GaugeValue v [] =
     Inr (measurement desc_scrapeDurationSeconds GaugeValue v [])"
  by (simp_all add: MustNewConstMetric_valid)

text \<open>
  The deferred sends never panic: a pass sends what its body sent, then the health and
  the duration, and it panics exactly when its body does.
\<close>

lemma Collect_metrics_exec:
  "Collect_metrics c elapsed =
     \<lparr>sent = ch (snd (exec (Collect_body c) \<lparr>ch = [], up = 1, calls = []\<rparr>)) @
         meta_measurements (up (snd (exec (Collect_body c) \<lparr>ch = [], up = 1, calls = []\<rparr>))) elapsed,
      asked = calls (snd (exec (Collect_body c) \<lparr>ch = [], up = 1, calls = []\<rparr>)),
      panic = fst (exec (Collect_body c) \<lparr>ch = [], up = 1, calls = []\<rparr>)\<rparr>"
  by (cases "exec (Collect_body c) \<lparr>ch = [], up = 1, calls = []\<rparr>")
     (simp add: Collect_metrics_def deferred_sends meta_measurements_def split: option.split)

lemma pass_usage_fails:
  assumes "GetUsage (client c) = Inl e"
  shows "Collect_metrics c elapsed =
     \<lparr>sent = meta_measurements 0 elapsed, asked = [CallGetUsage], panic = None\<rparr>"
  by (simp add: Collect_metrics_exec Collect_body_def assms)

lemma pass_usage_panics:
  assumes "GetUsage (client c) = Inr entries"
    and "\<not> list_all runs (emit_usage (aggregate_usage (c_store c) entries))"
  shows "sent (Collect_metrics c elapsed) =
           sends (takeWhile runs (emit_usage (aggregate_usage (c_store c) entries))) @
           meta_measurements 1 elapsed"
    and "asked (Collect_metrics c elapsed) = [CallGetUsage]"
    and "panic (Collect_metrics c elapsed) \<noteq> None"
proof -
  define E where "E = emit_usage (aggregate_usage (c_store c) entries)"
  define R where "R = Query CallGetUsers #
    (case GetUsers (client c) of Inl err \<Rightarrow> [Assign_up 0] | Inr uids \<Rightarrow> process_users c uids)"
  define s where "s = \<lparr>ch = [], up = 1, calls = [CallGetUsage]\<rparr>"
  have body: "exec (Collect_body c) \<lparr>ch = [], up = 1, calls = []\<rparr> = exec (E @ R) s"
    by (simp add: Collect_body_def assms(1) E_def R_def s_def)
  have p: "fst (exec E s) \<noteq> None"
    using assms(2) by (simp add: exec_panic_iff E_def)
  then have e: "exec (E @ R) s = exec E s"
    by (cases "exec E s") (auto simp: exec_append)
  have u: "up (snd (exec E s)) = 1"
    by (simp add: exec_up E_def no_assign_emit_usage s_def)
  show "sent (Collect_metrics c elapsed) =
      sends (takeWhile runs (emit_usage (aggregate_usage (c_store c) entries))) @
      meta_measurements 1 elapsed"
    by (simp add: Collect_metrics_exec body e u exec_ch) (simp add: E_def s_def)
  show "asked (Collect_metrics c elapsed) = [CallGetUsage]"
    by (simp add: Collect_metrics_exec body e exec_calls) (simp add: E_def s_def)
  show "panic (Collect_metrics c elapsed) \<noteq> None"
    using p by (simp add: Collect_metrics_exec body e)
qed

lemma exec_usage_runs:
  assumes "GetUsage (client c) = Inr entries"
    and "list_all runs (emit_usage (aggregate_usage (c_store c) entries))"
  shows "exec (Collect_body c) \<lparr>ch = [], up = 1, calls = []\<rparr> =
     exec (case GetUsers (client c) of Inl err \<Rightarrow> [Assign_up 0] | Inr uids \<Rightarrow> process_users c uids)
       \<lparr>ch = usage_block (c_store c) entries, up = 1, calls = [CallGetUsage, CallGetUsers]\<rparr>"
  by (simp add: Collect_body_def assms(1) exec_append
      exec_runs [OF assms(2)] no_assign_emit_usage sends_emit_usage [OF assms(2)] usage_block_def)

lemma pass_listing_fails:
  assumes "GetUsage (client c) = Inr entries"
    and "list_all runs (emit_usage (aggregate_usage (c_store c) entries))"
    and "GetUsers (client c) = Inl e"
  shows "Collect_metrics c elapsed =
     \<lparr>sent = usage_block (c_store c) entries @ meta_measurements 0 elapsed,
      asked = [CallGetUsage, CallGetUsers], panic = None\<rparr>"
  by (simp add: Collect_metrics_exec exec_usage_runs [OF assms(1,2)] assms(3))

lemma pass_walk:
  assumes "GetUsage (client c) = Inr entries"
    and "list_all runs (emit_usage (aggregate_usage (c_store c) entries))"
    and "GetUsers (client c) = Inr uids"
  shows "Collect_metrics c elapsed =
     \<lparr>sent = usage_block (c_store c) entries @ sends (takeWhile runs (process_users c uids)) @
         meta_measurements 1 elapsed,
      asked = CallGetUsage # CallGetUsers # queries (takeWhile runs (process_users c uids)),
      panic = fst (exec (process_users c uids)
        \<lparr>ch = usage_block (c_store c) entries, up = 1, calls = [CallGetUsage, CallGetUsers]\<rparr>)\<rparr>"
  by (simp add: Collect_metrics_exec exec_usage_runs [OF assms(1,2)] assms(3) exec_ch exec_calls
      exec_up no_assign_process_users)

text \<open>With valid label values every constructor returns, and the pass is the full one.\<close>

lemma pass_ok:
  assumes "valid_labels c" and "GetUsage (client c) = Inr entries"
    and "GetUsers (client c) = Inr uids"
  shows "Collect_metrics c elapsed =
     \<lparr>sent = usage_block (c_store c) entries @ concat (map (user_block c) uids) @
         meta_measurements 1 elapsed,
      asked = CallGetUsage # CallGetUsers # queries (process_users c uids),
      panic = None\<rparr>"
proof -
  have e: "list_all runs (emit_usage (aggregate_usage (c_store c) entries))"
    using assms by (simp add: valid_labels_def runs_emit_aggregate)
  have w: "list_all runs (process_users c uids)"
    using assms by (simp add: valid_labels_def runs_process_users)
  show ?thesis
    by (simp add: pass_walk [OF assms(2) e assms(3)] takeWhile_runs_all [OF w]
        sends_process_users [OF w] exec_panic_iff w)
qed

section \<open>Which descriptors a phase sends\<close>

lemma usage_measurements_desc: "m \<in> set (usage_measurements kv) \<Longrightarrow> m_desc m \<in> usage_descs"
  by (auto simp: usage_measurements_def usage_descs_def)

lemma usage_block_desc: "m \<in> set (usage_block st entries) \<Longrightarrow> m_desc m \<in> usage_descs"
  by (auto simp: usage_block_def dest: usage_measurements_desc)










lemma user_measurements_desc: "m \<in> set (user_measurements st u) \<Longrightarrow> m_desc m \<in> user_descs"
  by (auto simp: user_measurements_def user_descs_def when_present_def split: option.splits)

lemma bucket_measurements_desc:
  "m \<in> set (bucket_measurements st b) \<Longrightarrow> m_desc m \<in> bucket_descs"
  by (auto simp: bucket_measurements_def bucket_descs_def when_present_def split: option.splits)

lemma user_block_desc: "m \<in> set (user_block c uid) \<Longrightarrow> m_desc m \<in> user_descs \<union> bucket_descs"
  by (auto simp: user_block_def split: sum.splits
      dest: user_measurements_desc bucket_measurements_desc)

lemma user_blocks_desc:
  "m \<in> set (concat (map (user_block c) uids)) \<Longrightarrow> m_desc m \<in> user_descs \<union> bucket_descs"
  by (auto dest: user_block_desc)

lemma disjoint_descs:
  "usage_descs \<inter> (user_descs \<union> bucket_descs) = {}"
  "desc_up \<notin> usage_descs" "desc_up \<notin> user_descs \<union> bucket_descs"
  "desc_up \<notin> user_descs" "desc_up \<notin> bucket_descs"
  "desc_scrapeDurationSeconds \<notin> usage_descs"
  "desc_scrapeDurationSeconds \<notin> user_descs \<union> bucket_descs"
  by (auto simp: usage_descs_def user_descs_def bucket_descs_def)

lemma filter_desc_empty:
  "(\<And>m. m \<in> set ms \<Longrightarrow> m_desc m \<in> D) \<Longrightarrow> d \<notin> D \<Longrightarrow> filter (\<lambda>m. m_desc m = d \<and> P m) ms = []"
  by (auto simp: filter_empty_conv)


section \<open>Evaluation of the examples\<close>

lemmas ex_defs = ex_cat_def ex_entries_def ex_user_def ex_bucket_def ex_client_def
  ex_collector_def cat_of_def ex_key_def

lemmas model_defs = aggregate_usage_def add_entry_def add_bucket_def add_category_def
  new_usageMetricValues_def f64_add_def f64_of_u64_def f64_of_i64_def f64_of_int_def
  f64_round_def Let_def

lemmas pass_defs = Collect_metrics_def Collect_body_def process_user_def user_metrics_def
  bucket_metrics_def if_present_def enabled_value_def emit_usage_def usage_metrics_def
  MustNewConstMetric_def ValidString_def continuation_def second_of_three_def
  second_of_four_def bucketLabels_def userLabels_def

lemmas block_defs = usage_block_def usage_measurements_def user_block_def user_measurements_def
  bucket_measurements_def when_present_def measurement_def meta_measurements_def key_labels_def

lemmas valid_defs = valid_labels_def valid_usage_labels_def valid_user_labels_def ValidString_def
  continuation_def second_of_three_def second_of_four_def

section \<open>Failure behaviour of a pass\<close>

text \<open>
  A store label that is not valid UTF-8 makes the first constructor of the usage loop
  panic: the pass is cut short before the user listing is asked for, the deferred
  functions still send the health measurement, with value 1, and the duration, and the
  panic leaves \<^verbatim>\<open>Collect\<close>.
\<close>

lemma invalid_store_label_panics:
  "Collect_metrics ex_bad_store 5 =
     \<lparr>sent = meta_measurements 1 5, asked = [CallGetUsage],
      panic = Some (Error ''label value is not valid UTF-8'')\<rparr>"
  by (simp add: ex_bad_store_def ex_defs model_defs pass_defs block_defs)



text \<open>
  C2, as stated: when the usage query or the user-listing query fails, the pass emits the
  health measurement 0 and the duration measurement and nothing else. This fails when the
  user listing fails after a usage query that succeeded: the usage measurements have been
  sent to the channel before the listing is asked for.
\<close>

theorem fatal_pass_only_meta_counterexample:
  "isl (GetUsers (client ex_listing_fails)) \<and>
   fatal_query_failed ex_listing_fails (Collect_metrics ex_listing_fails 5) \<and>
   measurement desc_ops CounterValue (Float64 3) [''photos'', ''alice'', ''get_obj'', ''s'']
     \<in> set (sent (Collect_metrics ex_listing_fails 5)) \<and>
   measurement desc_ops CounterValue (Float64 3) [''photos'', ''alice'', ''get_obj'', ''s'']
     \<notin> set (meta_measurements 0 5)"
  by (simp add: fatal_query_failed_def ex_listing_fails_def ex_defs model_defs pass_defs
      block_defs)

text \<open>
  C2, amended. In a pass in which the usage query or the user-listing query is made and
  fails, \<^verbatim>\<open>Collect\<close> returns without a panic. When the usage query fails, the pass emits
  exactly the health measurement 0 and the duration measurement. When the usage query
  succeeds and the user listing fails, it emits the four usage measurements of every key
  of the aggregate, then the health measurement 0 and the duration measurement. In both
  cases no user and no bucket measurement is emitted.
\<close>

theorem fatal_pass_output:
  assumes "fatal_query_failed c (Collect_metrics c elapsed)"
  shows "sent (Collect_metrics c elapsed) =
           (case GetUsage (client c) of
              Inl err \<Rightarrow> []
            | Inr entries \<Rightarrow> usage_block (c_store c) entries) @
           meta_measurements 0 elapsed
       \<and> panic (Collect_metrics c elapsed) = None
       \<and> (\<forall>m \<in> set (sent (Collect_metrics c elapsed)). m_desc m \<notin> user_descs \<union> bucket_descs)"
proof -
  have shape: "sent (Collect_metrics c elapsed) =
           (case GetUsage (client c) of
              Inl err \<Rightarrow> []
            | Inr entries \<Rightarrow> usage_block (c_store c) entries) @
           meta_measurements 0 elapsed
       \<and> panic (Collect_metrics c elapsed) = None"
  proof (cases "GetUsage (client c)")
    case (Inl e)
    then show ?thesis
      by (simp add: pass_usage_fails)
  next
    case (Inr entries)
    show ?thesis
    proof (cases "list_all runs (emit_usage (aggregate_usage (c_store c) entries))")
      case False
      then show ?thesis
        using pass_usage_panics(2) [OF Inr False, of elapsed] assms Inr
        by (simp add: fatal_query_failed_def)
    next
      case True
      show ?thesis
      proof (cases "GetUsers (client c)")
        case (Inl e)
        then show ?thesis
          using Inr by (simp add: pass_listing_fails [OF Inr True Inl])
      next
        case walk: (Inr uids)
        then show ?thesis
          using assms Inr by (simp add: fatal_query_failed_def)
      qed
    qed
  qed
  have "m_desc m \<notin> user_descs \<union> bucket_descs"
    if "m \<in> set ((case GetUsage (client c) of
              Inl err \<Rightarrow> []
            | Inr entries \<Rightarrow> usage_block (c_store c) entries) @
           meta_measurements 0 elapsed)" for m
    using that disjoint_descs
    by (auto simp: meta_measurements_def split: sum.splits dest!: usage_block_desc)
  with shape show ?thesis
    by simp
qed

text \<open>
  The example gateway when the user listing fails: four usage measurements, health 0 and
  the duration. When the usage query fails: health 0 and the duration.
\<close>

theorem fatal_pass_output_witness:
  "fatal_query_failed ex_listing_fails (Collect_metrics ex_listing_fails 5) \<and>
   fatal_query_failed ex_usage_fails (Collect_metrics ex_usage_fails 5) \<and>
   sent (Collect_metrics ex_listing_fails 5) =
     [measurement desc_ops CounterValue (Float64 3) [''photos'', ''alice'', ''get_obj'', ''s''],
      measurement desc_successfulOps CounterValue (Float64 3)
        [''photos'', ''alice'', ''get_obj'', ''s''],
      measurement desc_bytesSent CounterValue (Float64 100)
        [''photos'', ''alice'', ''get_obj'', ''s''],
      measurement desc_bytesReceived CounterValue (Float64 0)
        [''photos'', ''alice'', ''get_obj'', ''s''],
      measurement desc_up GaugeValue (Float64 0) [],
      measurement desc_scrapeDurationSeconds GaugeValue (Seconds 5) []] \<and>
   sent (Collect_metrics ex_usage_fails 5) =
     [measurement desc_up GaugeValue (Float64 0) [],
      measurement desc_scrapeDurationSeconds GaugeValue (Seconds 5) []] \<and>
   panic (Collect_metrics ex_listing_fails 5) = None \<and>
   panic (Collect_metrics ex_usage_fails 5) = None"
proof -
  have l: "fatal_query_failed ex_listing_fails (Collect_metrics ex_listing_fails 5)"
    by (simp add: fatal_query_failed_def ex_listing_fails_def ex_defs model_defs pass_defs)
  have u: "fatal_query_failed ex_usage_fails (Collect_metrics ex_usage_fails 5)"
    by (simp add: fatal_query_failed_def ex_usage_fails_def ex_defs model_defs pass_defs)
  have a: "GetUsage (client ex_listing_fails) = Inr ex_entries"
      "c_store ex_listing_fails = ''s''"
      "GetUsage (client ex_usage_fails) = Inl (Error ''AccessDenied'')"
    by (simp_all add: ex_listing_fails_def ex_usage_fails_def ex_defs)
  have b: "usage_block ''s'' ex_entries =
     [measurement desc_ops CounterValue (Float64 3) [''photos'', ''alice'', ''get_obj'', ''s''],
      measurement desc_successfulOps CounterValue (Float64 3)
        [''photos'', ''alice'', ''get_obj'', ''s''],
      measurement desc_bytesSent CounterValue (Float64 100)
        [''photos'', ''alice'', ''get_obj'', ''s''],
      measurement desc_bytesReceived CounterValue (Float64 0)
        [''photos'', ''alice'', ''get_obj'', ''s'']]"
    by (simp add: ex_defs model_defs block_defs)
  show ?thesis
    using fatal_pass_output [OF l] fatal_pass_output [OF u] l u
    by (simp add: a b meta_measurements_def)
qed

section \<open>Failures of the queries of one user\<close>

lemma queries_buckets [simp]: "queries (concat (map (bucket_metrics st) bs)) = []"
  by (induction bs) simp_all

lemma queries_process_user:
  "queries (process_user c uid) =
     CallGetUser uid #
     (case GetUser (client c) uid of
        Inl err \<Rightarrow> []
      | Inr user \<Rightarrow> [CallListUsersBucketsWithStat uid])"
  by (simp add: process_user_def split: sum.splits)

lemma asked_process_users:
  "v \<in> set uids \<Longrightarrow> CallGetUser v \<in> set (queries (process_users c uids))"
  by (induction uids) (auto simp: queries_process_user)

text \<open>
  C4, as stated: a user whose detail fetch or bucket-list fetch fails contributes no
  measurement. This fails for the bucket-list fetch: it is asked for after the user's own
  measurements have been sent.
\<close>

theorem degraded_user_skipped_counterexample:
  "valid_labels ex_buckets_fail \<and>
   isl (ListUsersBucketsWithStat (client ex_buckets_fail) ''alice'') \<and>
   measurement desc_userTotalObjects GaugeValue (Float64 7) [''alice'', ''s'']
     \<in> set (sent (Collect_metrics ex_buckets_fail 5))"
  by (simp add: ex_buckets_fail_def ex_defs model_defs pass_defs block_defs valid_defs)

text \<open>
  C4, amended. Take a pass whose label values are valid UTF-8 (otherwise a constructor of
  the metrics library panics and cuts the pass short) and whose usage and user-listing
  queries succeed, and let the detail fetch or the bucket-list fetch of an identifier
  fail. If the detail fetch fails, the pass emits no measurement for that identifier; if
  only the bucket-list fetch fails, it emits the user-scoped measurements of that user
  and no bucket measurement for it. The identifiers before and after it are asked for and
  their measurements are emitted as usual, the health measurement is 1, and \<^verbatim>\<open>Collect\<close>
  returns without a panic.
\<close>

theorem degraded_user_continues:
  assumes "valid_labels c"
      and "GetUsage (client c) = Inr entries"
      and "GetUsers (client c) = Inr (us @ uid # vs)"
      and "isl (GetUser (client c) uid) \<or> isl (ListUsersBucketsWithStat (client c) uid)"
  shows "sent (Collect_metrics c elapsed) =
           usage_block (c_store c) entries
           @ concat (map (user_block c) us)
           @ (case GetUser (client c) uid of
                Inl err \<Rightarrow> []
              | Inr user \<Rightarrow> user_measurements (c_store c) user)
           @ concat (map (user_block c) vs)
           @ meta_measurements 1 elapsed
       \<and> (\<forall>v \<in> set (us @ uid # vs). CallGetUser v \<in> set (asked (Collect_metrics c elapsed)))
       \<and> panic (Collect_metrics c elapsed) = None"
proof -
  have b: "user_block c uid =
      (case GetUser (client c) uid of
         Inl err \<Rightarrow> []
       | Inr user \<Rightarrow> user_measurements (c_store c) user)"
    using assms(4) by (auto simp: user_block_def split: sum.splits)
  show ?thesis
    by (simp add: pass_ok [OF assms(1,2,3)] b asked_process_users)
qed

text \<open>
  In the example the bucket listing of \<open>alice\<close> fails: her four user measurements are
  emitted and no bucket measurement.
\<close>

theorem degraded_user_continues_witness:
  "valid_labels ex_buckets_fail \<and>
   GetUsage (client ex_buckets_fail) = Inr ex_entries \<and>
   GetUsers (client ex_buckets_fail) = Inr ([''bob''] @ ''alice'' # []) \<and>
   isl (ListUsersBucketsWithStat (client ex_buckets_fail) ''alice'') \<and>
   sent (Collect_metrics ex_buckets_fail 5) =
     usage_block ''s'' ex_entries
     @ [measurement desc_userTotalObjects GaugeValue (Float64 7) [''alice'', ''s''],
        measurement desc_userQuotaEnabled GaugeValue (Float64 1) [''alice'', ''s''],
        measurement desc_userQuotaMaxSizeBytes GaugeValue (Float64 10240) [''alice'', ''s''],
        measurement desc_userQuotaMaxObjects GaugeValue (Float64 (- 1)) [''alice'', ''s'']]
     @ meta_measurements 1 5 \<and>
   CallGetUser ''bob'' \<in> set (asked (Collect_metrics ex_buckets_fail 5)) \<and>
   CallGetUser ''alice'' \<in> set (asked (Collect_metrics ex_buckets_fail 5)) \<and>
   panic (Collect_metrics ex_buckets_fail 5) = None"
proof -
  have v: "valid_labels ex_buckets_fail"
    by (simp add: ex_buckets_fail_def ex_defs valid_defs)
  have u: "GetUsage (client ex_buckets_fail) = Inr ex_entries"
    by (simp add: ex_buckets_fail_def ex_client_def)
  have l: "GetUsers (client ex_buckets_fail) = Inr ([''bob''] @ ''alice'' # [])"
    by (simp add: ex_buckets_fail_def ex_client_def)
  have f: "isl (GetUser (client ex_buckets_fail) ''alice'')
      \<or> isl (ListUsersBucketsWithStat (client ex_buckets_fail) ''alice'')"
    by (simp add: ex_buckets_fail_def ex_client_def)
  have b: "user_block ex_buckets_fail ''bob'' = []"
    by (simp add: user_block_def ex_buckets_fail_def ex_client_def)
  have a: "GetUser (client ex_buckets_fail) ''alice'' = Inr ex_user"
      "c_store ex_buckets_fail = ''s''"
    by (simp_all add: ex_buckets_fail_def ex_client_def)
  have m: "user_measurements ''s'' ex_user =
      [measurement desc_userTotalObjects GaugeValue (Float64 7) [''alice'', ''s''],
       measurement desc_userQuotaEnabled GaugeValue (Float64 1) [''alice'', ''s''],
       measurement desc_userQuotaMaxSizeBytes GaugeValue (Float64 10240) [''alice'', ''s''],
       measurement desc_userQuotaMaxObjects GaugeValue (Float64 (- 1)) [''alice'', ''s'']]"
    by (simp add: user_measurements_def ex_user_def model_defs)
  show ?thesis
    using degraded_user_continues [OF v u l f, of 5] v u l
    by (simp add: a b m) (simp add: ex_buckets_fail_def ex_client_def)
qed



section \<open>Projection of user and bucket records\<close>

lemma of_desc_append [simp]: "of_desc d (ms @ ms') = of_desc d ms @ of_desc d ms'"
  by (simp add: of_desc_def)

lemma of_desc_Nil [simp]: "of_desc d [] = []"
  by (simp add: of_desc_def)

lemma of_desc_when_present:
  "of_desc d (when_present field (\<lambda>x. measurement d' t (v x) ls)) =
     (if d = d' then when_present field (\<lambda>x. measurement d' t (v x) ls) else [])"
  by (cases field) (simp_all add: of_desc_def)

lemma of_desc_empty: "(\<And>m. m \<in> set ms \<Longrightarrow> m_desc m \<in> D) \<Longrightarrow> d \<notin> D \<Longrightarrow> of_desc d ms = []"
  by (auto simp: of_desc_def filter_empty_conv)


lemma disjoint_user_bucket_descs:
  "d \<in> user_descs \<Longrightarrow> d \<notin> usage_descs" "d \<in> user_descs \<Longrightarrow> d \<notin> bucket_descs"
  "d \<in> bucket_descs \<Longrightarrow> d \<notin> usage_descs" "d \<in> bucket_descs \<Longrightarrow> d \<notin> user_descs"
  by (auto simp: usage_descs_def user_descs_def bucket_descs_def)

lemma of_desc_meta:
  "d \<in> user_descs \<union> bucket_descs \<Longrightarrow> of_desc d (meta_measurements h elapsed) = []"
  by (auto simp: of_desc_def meta_measurements_def user_descs_def bucket_descs_def)

lemma of_desc_buckets_user_desc:
  "d \<in> user_descs \<Longrightarrow> of_desc d (concat (map (bucket_measurements st) bs)) = []"
  by (rule of_desc_empty [where D = bucket_descs])
     (auto dest: bucket_measurements_desc simp: disjoint_user_bucket_descs)

text \<open>
  The measurements of a user descriptor in a pass with valid label values: those of the
  identifiers before \<open>uid\<close>, those of the user record of \<open>uid\<close>, those of the
  identifiers after it.
\<close>

lemma of_desc_user_pass:
  assumes "valid_labels c" and "GetUsage (client c) = Inr entries"
    and "GetUsers (client c) = Inr (us @ uid # vs)" and "GetUser (client c) uid = Inr u"
    and "d \<in> user_descs"
  shows "of_desc d (sent (Collect_metrics c elapsed)) =
     of_desc d (concat (map (user_block c) us)) @ of_desc d (user_measurements (c_store c) u) @
     of_desc d (concat (map (user_block c) vs))"
proof -
  have "of_desc d (usage_block (c_store c) entries) = []"
    by (rule of_desc_empty [OF usage_block_desc])
       (simp_all add: assms(5) disjoint_user_bucket_descs)
  then show ?thesis
    using assms(4,5)
    by (simp add: pass_ok [OF assms(1,2,3)] user_block_def of_desc_meta
        of_desc_buckets_user_desc split: sum.splits)
qed

text \<open>The same for a bucket descriptor and a bucket record of \<open>uid\<close>.\<close>

lemma of_desc_bucket_pass:
  assumes "valid_labels c" and "GetUsage (client c) = Inr entries"
    and "GetUsers (client c) = Inr (us @ uid # vs)" and "GetUser (client c) uid = Inr u"
    and "ListUsersBucketsWithStat (client c) uid = Inr (bs @ b # bs')"
    and "d \<in> bucket_descs"
  shows "of_desc d (sent (Collect_metrics c elapsed)) =
     of_desc d (concat (map (user_block c) us)) @
     of_desc d (concat (map (bucket_measurements (c_store c)) bs)) @
     of_desc d (bucket_measurements (c_store c) b) @
     of_desc d (concat (map (bucket_measurements (c_store c)) bs')) @
     of_desc d (concat (map (user_block c) vs))"
proof -
  have "of_desc d (usage_block (c_store c) entries) = []"
    by (rule of_desc_empty [OF usage_block_desc])
       (simp_all add: assms(6) disjoint_user_bucket_descs)
  moreover have "of_desc d (user_measurements (c_store c) u) = []"
    by (rule of_desc_empty [OF user_measurements_desc])
       (simp_all add: assms(6) disjoint_user_bucket_descs)
  ultimately show ?thesis
    using assms(4,5,6)
    by (simp add: pass_ok [OF assms(1,2,3)] user_block_def of_desc_meta)
qed

lemma of_desc_user_measurements:
  "of_desc desc_userTotalObjects (user_measurements st u) =
     when_present (NumObjects (Stat u))
       (\<lambda>n. measurement desc_userTotalObjects GaugeValue (Float64 (f64_of_u64 n)) [ID u, st])"
  "of_desc desc_userTotalBytes (user_measurements st u) =
     when_present (Size (Stat u))
       (\<lambda>n. measurement desc_userTotalBytes GaugeValue (Float64 (f64_of_u64 n)) [ID u, st])"
  "of_desc desc_userQuotaEnabled (user_measurements st u) =
     when_present (Enabled (UserQuota u))
       (\<lambda>b. measurement desc_userQuotaEnabled GaugeValue (Float64 (if b then 1 else 0)) [ID u, st])"
  "of_desc desc_userQuotaMaxSizeBytes (user_measurements st u) =
     when_present (MaxSizeKb (UserQuota u))
       (\<lambda>k. measurement desc_userQuotaMaxSizeBytes GaugeValue (Float64 (f64_of_i64 (k * 1024)))
              [ID u, st])"
  "of_desc desc_userQuotaMaxObjects (user_measurements st u) =
     when_present (MaxObjects (UserQuota u))
       (\<lambda>n. measurement desc_userQuotaMaxObjects GaugeValue (Float64 (f64_of_i64 n)) [ID u, st])"
  "of_desc desc_userBucketQuotaEnabled (user_measurements st u) =
     when_present (Enabled (BucketQuota u))
       (\<lambda>b. measurement desc_userBucketQuotaEnabled GaugeValue (Float64 (if b then 1 else 0))
              [ID u, st])"
  "of_desc desc_userBucketQuotaMaxSizeBytes (user_measurements st u) =
     when_present (MaxSizeKb (BucketQuota u))
       (\<lambda>k. measurement desc_userBucketQuotaMaxSizeBytes GaugeValue
              (Float64 (f64_of_i64 (k * 1024))) [ID u, st])"
  "of_desc desc_userBucketQuotaMaxObjects (user_measurements st u) =
     when_present (MaxObjects (BucketQuota u))
       (\<lambda>n. measurement desc_userBucketQuotaMaxObjects GaugeValue (Float64 (f64_of_i64 n))
              [ID u, st])"
  by (simp_all add: user_measurements_def of_desc_when_present)

lemma of_desc_bucket_measurements:
  "of_desc desc_bucketUsageObjects (bucket_measurements st b) =
     when_present (MainNumObjects b)
       (\<lambda>n. measurement desc_bucketUsageObjects GaugeValue (Float64 (f64_of_u64 n))
              [BucketName b, Owner b, ''bucket_total'', st])"
  "of_desc desc_bucketUsageBytes (bucket_measurements st b) =
     when_present (MainSizeActual b)
       (\<lambda>n. measurement desc_bucketUsageBytes GaugeValue (Float64 (f64_of_u64 n))
              [BucketName b, Owner b, ''bucket_total'', st])"
  by (simp_all add: bucket_measurements_def of_desc_when_present)

lemma user_descs_mem:
  "desc_userTotalObjects \<in> user_descs" "desc_userTotalBytes \<in> user_descs"
  "desc_userQuotaEnabled \<in> user_descs" "desc_userQuotaMaxSizeBytes \<in> user_descs"
  "desc_userQuotaMaxObjects \<in> user_descs" "desc_userBucketQuotaEnabled \<in> user_descs"
  "desc_userBucketQuotaMaxSizeBytes \<in> user_descs" "desc_userBucketQuotaMaxObjects \<in> user_descs"
  "desc_bucketUsageObjects \<in> bucket_descs" "desc_bucketUsageBytes \<in> bucket_descs"
  by (simp_all add: user_descs_def bucket_descs_def)



section \<open>Quota sizes\<close>

lemma bit_len_le: "bit_len n \<le> k \<longleftrightarrow> n < 2 ^ k"
proof (induction k arbitrary: n)
  case 0
  show ?case by (subst bit_len.simps) simp
next
  case (Suc k)
  have "bit_len n \<le> Suc k \<longleftrightarrow> n = 0 \<or> bit_len (n div 2) \<le> k"
    by (subst bit_len.simps) simp
  also have "\<dots> \<longleftrightarrow> n = 0 \<or> n div 2 < 2 ^ k"
    by (simp only: Suc.IH)
  also have "\<dots> \<longleftrightarrow> n < 2 ^ Suc k"
    by auto
  finally show ?case .
qed

lemma f64_round_exact:
  assumes "2 ^ (bit_len n - 53) dvd n"
  shows "f64_round n = n"
proof (cases "n < 2 ^ 53")
  case True
  then show ?thesis by (simp add: f64_round_def)
next
  case False
  then have "\<not> bit_len n \<le> 53"
    by (simp add: bit_len_le)
  then have pos: "0 < bit_len n - 53"
    by simp
  from assms have r: "n mod 2 ^ (bit_len n - 53) = 0"
    by (simp add: mod_eq_0_iff_dvd)
  from assms have q: "n div 2 ^ (bit_len n - 53) * 2 ^ (bit_len n - 53) = n"
    by simp
  show ?thesis
    using False by (simp add: f64_round_def Let_def r q)
qed

lemma f64_round_small: "n \<le> 2 ^ 53 \<Longrightarrow> f64_round n = n"
proof -
  assume "n \<le> 2 ^ 53"
  then consider "n < 2 ^ 53" | "n = 2 ^ 53"
    by (auto simp: le_less)
  then show ?thesis
  proof cases
    case 1
    then show ?thesis by (simp add: f64_round_def)
  next
    case 2
    then show ?thesis by (simp add: f64_round_def)
  qed
qed

lemma f64_round_kib:
  assumes "m \<le> 2 ^ 53"
  shows "f64_round (m * 1024) = m * 1024"
proof (cases "m = 2 ^ 53")
  case True
  then show ?thesis by (simp add: f64_round_def)
next
  case False
  with assms have "m * 1024 < 2 ^ 63"
    by simp
  then have "bit_len (m * 1024) \<le> 63"
    by (simp only: bit_len_le)
  then have "bit_len (m * 1024) - 53 \<le> 10"
    by simp
  then have "(2::nat) ^ (bit_len (m * 1024) - 53) dvd 2 ^ 10"
    by (rule le_imp_power_dvd)
  then have "2 ^ (bit_len (m * 1024) - 53) dvd m * 1024"
    by simp
  then show ?thesis
    by (rule f64_round_exact)
qed

lemma f64_of_int_kib:
  assumes "- (2 ^ 53) \<le> x" and "x \<le> 2 ^ 53"
  shows "f64_of_int (x * 1024) = x * 1024"
proof (cases "x < 0")
  case True
  with assms have "nat (- x) \<le> 2 ^ 53"
    by simp
  then have "f64_round (nat (- x) * 1024) = nat (- x) * 1024"
    by (rule f64_round_kib)
  moreover have "nat (- (x * 1024)) = nat (- x) * 1024"
    using True by (simp add: nat_mult_distrib)
  ultimately show ?thesis
    using True by (simp add: f64_of_int_def)
next
  case False
  with assms have "nat x \<le> 2 ^ 53"
    by simp
  then have "f64_round (nat x * 1024) = nat x * 1024"
    by (rule f64_round_kib)
  moreover have "nat (x * 1024) = nat x * 1024"
    using False by (simp add: nat_mult_distrib)
  ultimately show ?thesis
    using False by (simp add: f64_of_int_def)
qed

lemma sint_kib:
  fixes k :: i64
  assumes "- (2 ^ 53) \<le> sint k" and "sint k < 2 ^ 53"
  shows "sint (k * 1024) = sint k * 1024"
proof -
  have "sint (k * 1024) = signed_take_bit 63 (sint k * sint (1024 :: i64))"
    by (simp add: sint_word_ariths)
  also have "\<dots> = signed_take_bit 63 (sint k * 1024)"
    by simp
  also have "\<dots> = sint k * 1024"
    using assms by (intro signed_take_bit_int_eq_self) simp_all
  finally show ?thesis .
qed

lemma f64_of_i64_kib:
  fixes k :: i64
  assumes "- (2 ^ 53) \<le> sint k" and "sint k < 2 ^ 53"
  shows "f64_of_i64 (k * 1024) = sint k * 1024"
  using assms by (simp add: f64_of_i64_def sint_kib f64_of_int_kib)

text \<open>
  C8, as stated: every present quota size of \<open>k\<close> KiB is emitted as exactly
  \<open>k \<times> 1024\<close>. The product is computed in the 64-bit integer type of the field before
  the conversion to \<^verbatim>\<open>float64\<close>, so it wraps around from \<open>k = 2 ^ 53\<close> on: in a pass
  with valid label values a quota of \<open>2 ^ 53\<close> KiB is emitted as \<open>- (2 ^ 63)\<close>.
\<close>

theorem kib_to_bytes_counterexample:
  "valid_labels ex_huge_quota \<and>
   GetUser (client ex_huge_quota) ''alice'' = Inr ex_user_huge_quota \<and>
   MaxSizeKb (UserQuota ex_user_huge_quota) = Some (2 ^ 53) \<and>
   sint (2 ^ 53 :: i64) * 1024 = 2 ^ 63 \<and>
   of_desc desc_userQuotaMaxSizeBytes (sent (Collect_metrics ex_huge_quota 5)) =
     [measurement desc_userQuotaMaxSizeBytes GaugeValue (Float64 (- (2 ^ 63)))
        [''alice'', ''s'']]"
  by (simp add: ex_huge_quota_def ex_user_huge_quota_def ex_defs model_defs pass_defs block_defs
      valid_defs of_desc_def)

text \<open>
  C8, amended. Take a pass whose label values are valid UTF-8 and whose usage and
  user-listing queries succeed, and an identifier of the listing whose detail fetch
  returns a user record. For a present user-quota or per-bucket-quota size of \<open>k\<close> KiB
  with \<open>- (2 ^ 53) \<le> k < 2 ^ 53\<close>, the size measurements of the pass are those of the
  identifiers before it, one measurement of exactly \<open>k \<times> 1024\<close> under the labels of
  the user, and those of the identifiers after it. The measurement of every other numeric
  field of the user record and of its bucket records carries the \<^verbatim>\<open>float64\<close> of the
  field itself, with no multiplier.
\<close>

theorem kib_to_bytes:
  assumes "valid_labels c" and "GetUsage (client c) = Inr entries"
      and "GetUsers (client c) = Inr (us @ uid # vs)" and "GetUser (client c) uid = Inr u"
  shows "(\<forall>k. MaxSizeKb (UserQuota u) = Some k \<and> - (2 ^ 53) \<le> sint k \<and> sint k < 2 ^ 53 \<longrightarrow>
      of_desc desc_userQuotaMaxSizeBytes (sent (Collect_metrics c elapsed)) =
        of_desc desc_userQuotaMaxSizeBytes (concat (map (user_block c) us))
        @ [measurement desc_userQuotaMaxSizeBytes GaugeValue (Float64 (sint k * 1024))
             [ID u, c_store c]]
        @ of_desc desc_userQuotaMaxSizeBytes (concat (map (user_block c) vs)))
   \<and> (\<forall>k. MaxSizeKb (BucketQuota u) = Some k \<and> - (2 ^ 53) \<le> sint k \<and> sint k < 2 ^ 53 \<longrightarrow>
      of_desc desc_userBucketQuotaMaxSizeBytes (sent (Collect_metrics c elapsed)) =
        of_desc desc_userBucketQuotaMaxSizeBytes (concat (map (user_block c) us))
        @ [measurement desc_userBucketQuotaMaxSizeBytes GaugeValue (Float64 (sint k * 1024))
             [ID u, c_store c]]
        @ of_desc desc_userBucketQuotaMaxSizeBytes (concat (map (user_block c) vs)))
   \<and> of_desc desc_userTotalObjects (sent (Collect_metrics c elapsed)) =
        of_desc desc_userTotalObjects (concat (map (user_block c) us))
        @ when_present (NumObjects (Stat u)) (\<lambda>n. measurement desc_userTotalObjects
            GaugeValue (Float64 (f64_of_u64 n)) [ID u, c_store c])
        @ of_desc desc_userTotalObjects (concat (map (user_block c) vs))
   \<and> of_desc desc_userTotalBytes (sent (Collect_metrics c elapsed)) =
        of_desc desc_userTotalBytes (concat (map (user_block c) us))
        @ when_present (Size (Stat u)) (\<lambda>n. measurement desc_userTotalBytes
            GaugeValue (Float64 (f64_of_u64 n)) [ID u, c_store c])
        @ of_desc desc_userTotalBytes (concat (map (user_block c) vs))
   \<and> of_desc desc_userQuotaMaxObjects (sent (Collect_metrics c elapsed)) =
        of_desc desc_userQuotaMaxObjects (concat (map (user_block c) us))
        @ when_present (MaxObjects (UserQuota u)) (\<lambda>n. measurement desc_userQuotaMaxObjects
            GaugeValue (Float64 (f64_of_i64 n)) [ID u, c_store c])
        @ of_desc desc_userQuotaMaxObjects (concat (map (user_block c) vs))
   \<and> of_desc desc_userBucketQuotaMaxObjects (sent (Collect_metrics c elapsed)) =
        of_desc desc_userBucketQuotaMaxObjects (concat (map (user_block c) us))
        @ when_present (MaxObjects (BucketQuota u)) (\<lambda>n. measurement
            desc_userBucketQuotaMaxObjects GaugeValue (Float64 (f64_of_i64 n)) [ID u, c_store c])
        @ of_desc desc_userBucketQuotaMaxObjects (concat (map (user_block c) vs))
   \<and> (\<forall>bs b bs'. ListUsersBucketsWithStat (client c) uid = Inr (bs @ b # bs') \<longrightarrow>
        of_desc desc_bucketUsageObjects (sent (Collect_metrics c elapsed)) =
          of_desc desc_bucketUsageObjects (concat (map (user_block c) us))
          @ of_desc desc_bucketUsageObjects (concat (map (bucket_measurements (c_store c)) bs))
          @ when_present (MainNumObjects b) (\<lambda>n. measurement desc_bucketUsageObjects
              GaugeValue (Float64 (f64_of_u64 n)) [BucketName b, Owner b, ''bucket_total'', c_store c])
          @ of_desc desc_bucketUsageObjects (concat (map (bucket_measurements (c_store c)) bs'))
          @ of_desc desc_bucketUsageObjects (concat (map (user_block c) vs))
      \<and> of_desc desc_bucketUsageBytes (sent (Collect_metrics c elapsed)) =
          of_desc desc_bucketUsageBytes (concat (map (user_block c) us))
          @ of_desc desc_bucketUsageBytes (concat (map (bucket_measurements (c_store c)) bs))
          @ when_present (MainSizeActual b) (\<lambda>n. measurement desc_bucketUsageBytes
              GaugeValue (Float64 (f64_of_u64 n)) [BucketName b, Owner b, ''bucket_total'', c_store c])
          @ of_desc desc_bucketUsageBytes (concat (map (bucket_measurements (c_store c)) bs'))
          @ of_desc desc_bucketUsageBytes (concat (map (user_block c) vs)))"
  by (simp add: of_desc_user_pass [OF assms] of_desc_bucket_pass [OF assms]
      user_descs_mem of_desc_user_measurements of_desc_bucket_measurements f64_of_i64_kib)

text \<open>The quota of 10 KiB of the example user is emitted as 10240.\<close>

theorem kib_to_bytes_witness:
  "valid_labels ex_collector \<and>
   GetUsage (client ex_collector) = Inr ex_entries \<and>
   GetUsers (client ex_collector) = Inr ([''bob''] @ ''alice'' # []) \<and>
   GetUser (client ex_collector) ''alice'' = Inr ex_user \<and>
   MaxSizeKb (UserQuota ex_user) = Some 10 \<and> - (2 ^ 53) \<le> sint (10 :: i64) \<and>
   sint (10 :: i64) < 2 ^ 53 \<and>
   of_desc desc_userQuotaMaxSizeBytes (sent (Collect_metrics ex_collector 5)) =
     [measurement desc_userQuotaMaxSizeBytes GaugeValue (Float64 10240) [''alice'', ''s'']]"
proof -
  have v: "valid_labels ex_collector"
    by (simp add: ex_defs valid_defs)
  have u: "GetUsage (client ex_collector) = Inr ex_entries"
    by (simp add: ex_collector_def ex_client_def)
  have l: "GetUsers (client ex_collector) = Inr ([''bob''] @ ''alice'' # []) "
    by (simp add: ex_collector_def ex_client_def)
  have a: "GetUser (client ex_collector) ''alice'' = Inr ex_user"
    by (simp add: ex_collector_def ex_client_def)
  have h: "MaxSizeKb (UserQuota ex_user) = Some 10 \<and> - (2 ^ 53) \<le> sint (10 :: i64) \<and>
      sint (10 :: i64) < 2 ^ 53"
    by (simp add: ex_user_def)
  have o: "user_block ex_collector ''bob'' = []"
    by (simp add: user_block_def ex_collector_def ex_client_def)
  from kib_to_bytes [OF v u l a, of 5] h
  have "of_desc desc_userQuotaMaxSizeBytes (sent (Collect_metrics ex_collector 5)) =
      of_desc desc_userQuotaMaxSizeBytes (concat (map (user_block ex_collector) [''bob'']))
      @ [measurement desc_userQuotaMaxSizeBytes GaugeValue (Float64 (sint (10 :: i64) * 1024))
           [ID ex_user, c_store ex_collector]]
      @ of_desc desc_userQuotaMaxSizeBytes (concat (map (user_block ex_collector) []))"
    by blast
  with h v u l a show ?thesis
    by (simp add: o) (simp add: ex_user_def ex_collector_def)
qed

section \<open>Emission of the aggregate\<close>








section \<open>Counters of the aggregate\<close>

lemma f64_of_int_small: "0 \<le> i \<Longrightarrow> i \<le> 2 ^ 53 \<Longrightarrow> f64_of_int i = i"
proof -
  assume "0 \<le> i" and "i \<le> 2 ^ 53"
  then have "nat i \<le> 2 ^ 53"
    by simp
  then have "f64_round (nat i) = nat i"
    by (rule f64_round_small)
  with \<open>0 \<le> i\<close> show ?thesis
    by (simp add: f64_of_int_def)
qed

lemma f64_of_int_nonneg: "0 \<le> i \<Longrightarrow> 0 \<le> f64_of_int i"
  by (simp add: f64_of_int_def)

lemma f64_of_u64_nonneg: "0 \<le> f64_of_u64 w"
  by (simp add: f64_of_u64_def f64_of_int_nonneg)

lemma f64_of_u64_small: "uint w \<le> 2 ^ 53 \<Longrightarrow> f64_of_u64 w = uint w"
  by (simp add: f64_of_u64_def f64_of_int_small)

lemma f64_add_exact:
  "0 \<le> a \<Longrightarrow> a + uint w \<le> 2 ^ 53 \<Longrightarrow> f64_add a (f64_of_u64 w) = a + uint w"
proof -
  assume a: "0 \<le> a" and le: "a + uint w \<le> 2 ^ 53"
  have "0 \<le> uint w"
    by simp
  with a le have "uint w \<le> 2 ^ 53"
    by linarith
  then have "f64_of_u64 w = uint w"
    by (rule f64_of_u64_small)
  moreover have "0 \<le> a + uint w"
    using a by simp
  ultimately show ?thesis
    using le by (simp add: f64_add_def f64_of_int_small)
qed

lemma f64_add_nonneg: "0 \<le> a \<Longrightarrow> 0 \<le> f64_add a (f64_of_u64 w)"
  using f64_of_u64_nonneg [of w] by (simp add: f64_add_def f64_of_int_nonneg)

lemma aggr_counter_new: "aggr_counter cn new_usageMetricValues = 0"
  by (cases cn) (simp_all add: new_usageMetricValues_def)

lemma aggr_counter_bump:
  "aggr_counter cn
     (v\<lparr>ops := f64_add (ops v) (f64_of_u64 (Ops cat)),
        successfulOps := f64_add (successfulOps v) (f64_of_u64 (SuccessfulOps cat)),
        bytesSent := f64_add (bytesSent v) (f64_of_u64 (BytesSent cat)),
        bytesReceived := f64_add (bytesReceived v) (f64_of_u64 (BytesReceived cat))\<rparr>) =
   f64_add (aggr_counter cn v) (f64_of_u64 (input_counter cn cat))"
  by (cases cn) simp_all

lemma key_counter_add_record:
  "key_counter cn (add_record r a) key =
     (if key = fst r
      then f64_add (key_counter cn a key) (f64_of_u64 (input_counter cn (snd r)))
      else key_counter cn a key)"
  by (auto simp: key_counter_def add_record_def Let_def update_conv' aggr_counter_bump
      aggr_counter_new split: option.splits)

lemma key_counter_Nil: "key_counter cn [] key = 0"
  by (simp add: key_counter_def)

lemma records_group_total_snoc:
  "records_group_total cn (rs @ [r]) key =
     records_group_total cn rs key + (if fst r = key then uint (input_counter cn (snd r)) else 0)"
  by (simp add: records_group_total_def)

lemma records_group_total_nonneg: "0 \<le> records_group_total cn rs key"
  by (auto simp: records_group_total_def intro!: sum_list_nonneg)

lemma records_total_snoc:
  "records_total cn (rs @ [r]) = records_total cn rs + uint (input_counter cn (snd r))"
  by (simp add: records_total_def)

lemma records_total_nonneg: "0 \<le> records_total cn rs"
  by (auto simp: records_total_def intro!: sum_list_nonneg)

text \<open>While the exact sum of a key stays within \<open>2 ^ 53\<close>, its accumulator holds that sum.\<close>

lemma key_counter_fold:
  "records_group_total cn rs key \<le> 2 ^ 53 \<Longrightarrow>
   key_counter cn (fold add_record rs []) key = records_group_total cn rs key"
proof (induction rs rule: rev_induct)
  case Nil
  show ?case by (simp add: key_counter_Nil records_group_total_def)
next
  case (snoc r rs)
  have le: "records_group_total cn rs key \<le> 2 ^ 53"
  proof (cases "fst r = key")
    case True
    with snoc.prems
    have "records_group_total cn rs key + uint (input_counter cn (snd r)) \<le> 2 ^ 53"
      by (simp add: records_group_total_snoc)
    moreover have "0 \<le> uint (input_counter cn (snd r))"
      by simp
    ultimately show ?thesis
      by linarith
  next
    case False
    with snoc.prems show ?thesis
      by (simp add: records_group_total_snoc)
  qed
  have ih: "key_counter cn (fold add_record rs []) key = records_group_total cn rs key"
    using le by (rule snoc.IH)
  show ?case
  proof (cases "key = fst r")
    case True
    have "f64_add (records_group_total cn rs key) (f64_of_u64 (input_counter cn (snd r))) =
        records_group_total cn rs key + uint (input_counter cn (snd r))"
      using snoc.prems True
      by (intro f64_add_exact records_group_total_nonneg) (simp add: records_group_total_snoc)
    then show ?thesis
      using True ih by (simp add: key_counter_add_record records_group_total_snoc)
  next
    case False
    then show ?thesis
      by (auto simp: key_counter_add_record ih records_group_total_snoc)
  qed
qed

subsection \<open>Sums over the pairs of an aggregate\<close>

lemma filter_key_absent: "key \<notin> fst ` set a \<Longrightarrow> filter (\<lambda>kv. fst kv = key) a = []"
  by (auto simp: filter_empty_conv)

lemma aggr_group_total_key_counter:
  "distinct (map fst a) \<Longrightarrow> aggr_group_total cn a key = key_counter cn a key"
proof (induction a)
  case Nil
  show ?case by (simp add: aggr_group_total_def key_counter_def)
next
  case (Cons kv a)
  obtain k v where kv: "kv = (k, v)"
    by (cases kv)
  show ?case
  proof (cases "k = key")
    case True
    with Cons.prems kv have "key \<notin> fst ` set a"
      by auto
    then have "filter (\<lambda>kv. fst kv = key) a = []"
      by (rule filter_key_absent)
    then show ?thesis
      using True kv by (simp add: aggr_group_total_def key_counter_def)
  next
    case False
    from Cons.prems have "distinct (map fst a)"
      by simp
    from Cons.IH [OF this] False kv show ?thesis
      by (simp add: aggr_group_total_def key_counter_def)
  qed
qed

lemma key_counter_bounds:
  "\<forall>kv \<in> set a. 0 \<le> aggr_counter cn (snd kv) \<Longrightarrow>
   0 \<le> key_counter cn a key \<and> key_counter cn a key \<le> aggr_total cn a"
proof (induction a)
  case Nil
  show ?case by (simp add: key_counter_def aggr_total_def)
next
  case (Cons kv a)
  then have ih: "0 \<le> key_counter cn a key \<and> key_counter cn a key \<le> aggr_total cn a"
    and hd: "0 \<le> aggr_counter cn (snd kv)"
    by simp_all
  have tl: "0 \<le> aggr_total cn a"
    using ih by linarith
  show ?case
  proof (cases "fst kv = key")
    case True
    then have "key_counter cn (kv # a) key = aggr_counter cn (snd kv)"
      by (cases kv) (simp add: key_counter_def)
    with hd tl show ?thesis
      by (simp add: aggr_total_def)
  next
    case False
    then have "key_counter cn (kv # a) key = key_counter cn a key"
      by (cases kv) (simp add: key_counter_def)
    with ih hd show ?thesis
      by (simp add: aggr_total_def)
  qed
qed

lemma aggr_total_update:
  "aggr_total cn (AList.update k v a) = aggr_total cn a - key_counter cn a k + aggr_counter cn v"
proof (induction a)
  case Nil
  show ?case by (simp add: aggr_total_def key_counter_def)
next
  case (Cons kv a)
  obtain k' v' where kv: "kv = (k', v')"
    by (cases kv)
  show ?case
  proof (cases "k' = k")
    case True
    then show ?thesis
      using kv by (simp add: aggr_total_def key_counter_def)
  next
    case False
    have "aggr_total cn (AList.update k v (kv # a)) =
        aggr_counter cn v' + aggr_total cn (AList.update k v a)"
      using False kv by (simp add: aggr_total_def)
    also have "\<dots> = aggr_counter cn v' + (aggr_total cn a - key_counter cn a k + aggr_counter cn v)"
      by (simp only: Cons.IH)
    also have "key_counter cn a k = key_counter cn (kv # a) k"
      using False kv by (simp add: key_counter_def)
    finally show ?thesis
      using kv by (simp add: aggr_total_def)
  qed
qed

lemma aggr_total_add_record:
  "aggr_total cn (add_record r a) =
     aggr_total cn a - key_counter cn a (fst r)
       + f64_add (key_counter cn a (fst r)) (f64_of_u64 (input_counter cn (snd r)))"
  by (simp add: add_record_def Let_def aggr_total_update aggr_counter_bump)
     (simp add: key_counter_def aggr_counter_new split: option.splits)

lemma set_update_cases: "kv \<in> set (AList.update k v a) \<Longrightarrow> kv = (k, v) \<or> kv \<in> set a"
  by (induction a) (auto split: if_splits)

lemma nonneg_add_record:
  assumes "\<forall>kv \<in> set a. 0 \<le> aggr_counter cn (snd kv)"
  shows "\<forall>kv \<in> set (add_record r a). 0 \<le> aggr_counter cn (snd kv)"
proof
  fix kv
  assume "kv \<in> set (add_record r a)"
  then consider v where "map_of a (fst r) = Some v"
      "kv = (fst r, v\<lparr>ops := f64_add (ops v) (f64_of_u64 (Ops (snd r))),
        successfulOps := f64_add (successfulOps v) (f64_of_u64 (SuccessfulOps (snd r))),
        bytesSent := f64_add (bytesSent v) (f64_of_u64 (BytesSent (snd r))),
        bytesReceived := f64_add (bytesReceived v) (f64_of_u64 (BytesReceived (snd r)))\<rparr>)"
    | "map_of a (fst r) = None"
      "kv = (fst r, new_usageMetricValues\<lparr>
        ops := f64_add (ops new_usageMetricValues) (f64_of_u64 (Ops (snd r))),
        successfulOps := f64_add (successfulOps new_usageMetricValues)
          (f64_of_u64 (SuccessfulOps (snd r))),
        bytesSent := f64_add (bytesSent new_usageMetricValues) (f64_of_u64 (BytesSent (snd r))),
        bytesReceived := f64_add (bytesReceived new_usageMetricValues)
          (f64_of_u64 (BytesReceived (snd r)))\<rparr>)"
    | "kv \<in> set a"
    by (auto simp: add_record_def Let_def dest!: set_update_cases split: option.splits)
  then show "0 \<le> aggr_counter cn (snd kv)"
  proof cases
    case 1
    from 1(1) have "(fst r, v) \<in> set a"
      by (rule map_of_SomeD)
    with assms have "0 \<le> aggr_counter cn v"
      by fastforce
    then show ?thesis
      unfolding 1(2) snd_conv aggr_counter_bump by (rule f64_add_nonneg)
  next
    case 2
    have "0 \<le> aggr_counter cn new_usageMetricValues"
      by (simp add: aggr_counter_new)
    then show ?thesis
      unfolding 2(2) snd_conv aggr_counter_bump by (rule f64_add_nonneg)
  next
    case 3
    with assms show ?thesis by blast
  qed
qed

lemma nonneg_fold_add_record:
  "\<forall>kv \<in> set (fold add_record rs []). 0 \<le> aggr_counter cn (snd kv)"
proof (induction rs rule: rev_induct)
  case Nil
  show ?case by simp
next
  case (snoc r rs)
  then show ?case
    by (simp only: fold_append fold.simps comp_def id_def) (rule nonneg_add_record)
qed

text \<open>While the exact total stays within \<open>2 ^ 53\<close>, the accumulators add up to it.\<close>

lemma aggr_total_fold:
  "records_total cn rs \<le> 2 ^ 53 \<Longrightarrow>
   aggr_total cn (fold add_record rs []) = records_total cn rs"
proof (induction rs rule: rev_induct)
  case Nil
  show ?case by (simp add: aggr_total_def records_total_def)
next
  case (snoc r rs)
  let ?a = "fold add_record rs []"
  let ?x = "uint (input_counter cn (snd r))"
  have x: "0 \<le> ?x"
    by simp
  have le: "records_total cn rs + ?x \<le> 2 ^ 53"
    using snoc.prems by (simp add: records_total_snoc)
  with x have "records_total cn rs \<le> 2 ^ 53"
    by linarith
  then have ih: "aggr_total cn ?a = records_total cn rs"
    by (rule snoc.IH)
  have b: "0 \<le> key_counter cn ?a (fst r) \<and> key_counter cn ?a (fst r) \<le> aggr_total cn ?a"
    by (rule key_counter_bounds) (rule nonneg_fold_add_record)
  then have "key_counter cn ?a (fst r) + ?x \<le> 2 ^ 53"
    using le ih by linarith
  with b have "f64_add (key_counter cn ?a (fst r)) (f64_of_u64 (input_counter cn (snd r))) =
      key_counter cn ?a (fst r) + ?x"
    by (intro f64_add_exact) simp_all
  then have "aggr_total cn (add_record r ?a) = aggr_total cn ?a + ?x"
    by (simp add: aggr_total_add_record)
  then show ?case
    by (simp add: ih records_total_snoc)
qed

section \<open>Bucket names of the keys\<close>

lemma key_counter_fold_records:
  "key_counter cn (fold add_record rs a) key =
     fold (\<lambda>r acc. f64_add acc (f64_of_u64 (input_counter cn (snd r))))
       (filter (\<lambda>r. fst r = key) rs) (key_counter cn a key)"
  by (induction rs arbitrary: a) (auto simp: key_counter_add_record)

lemma key_counter_aggregate:
  "key_counter cn (aggregate_usage st entries) key =
     f64_total cn (filter (\<lambda>r. fst r = key) (usage_records st entries))"
  by (simp add: aggregate_usage_fold key_counter_fold_records key_counter_Nil f64_total_def)

lemma keys_aggregate_usage:
  "fst ` set (aggregate_usage st entries) = fst ` set (usage_records st entries)"
  by (simp add: aggregate_usage_fold keys_fold_add_record)

lemma usage_records_bucket: "r \<in> set (usage_records st entries) \<Longrightarrow> bucket (fst r) \<noteq> []"
  by (auto simp: usage_records_def split: if_splits)

text \<open>
  C6. Bucket-name defaulting. Every per-category record of the input is aggregated under
  the key made of its bucket name, or of \<open>bucket_root\<close> when the bucket name of its
  per-bucket record is empty, of the user of its entry, of its category and of the store
  label. The key is in the aggregate, and each of its four counters is the \<^verbatim>\<open>float64\<close>
  sum, in the order of the input, of that counter over the records of the key, this
  record among them: no record is dropped. No key of the aggregate has an empty bucket
  name.
\<close>

theorem bucket_name_defaulting:
  assumes "entry \<in> set entries" and "b \<in> set (Buckets entry)" and "cat \<in> set (Categories b)"
      and "key = \<lparr>bucket = (if Bucket b = [] then ''bucket_root'' else Bucket b),
                   owner = User entry, category = Category cat, store = st\<rparr>"
  shows "key \<in> fst ` set (aggregate_usage st entries)
       \<and> (key, cat) \<in> set (filter (\<lambda>r. fst r = key) (usage_records st entries))
       \<and> (\<forall>cn. key_counter cn (aggregate_usage st entries) key =
            f64_total cn (filter (\<lambda>r. fst r = key) (usage_records st entries)))
       \<and> (\<forall>k \<in> fst ` set (aggregate_usage st entries). bucket k \<noteq> [])"
proof -
  have r: "(key, cat) \<in> set (usage_records st entries)"
    unfolding assms(4) using assms(1,2,3) by (rule usage_records_member)
  then have "key \<in> fst ` set (usage_records st entries)"
    by force
  then have k: "key \<in> fst ` set (aggregate_usage st entries)"
    by (simp add: keys_aggregate_usage)
  have n: "\<forall>k \<in> fst ` set (aggregate_usage st entries). bucket k \<noteq> []"
    by (auto simp: keys_aggregate_usage dest: usage_records_bucket)
  from r k n show ?thesis
    by (simp add: key_counter_aggregate)
qed

text \<open>
  The usage of \<open>alice\<close> on a bucket without a name is aggregated under \<open>bucket_root\<close>,
  with its 3 operations and 100 bytes sent.
\<close>

theorem bucket_name_defaulting_witness:
  "hd ex_root_entries \<in> set ex_root_entries \<and>
   hd (Buckets (hd ex_root_entries)) \<in> set (Buckets (hd ex_root_entries)) \<and>
   ex_cat \<in> set (Categories (hd (Buckets (hd ex_root_entries)))) \<and>
   Bucket (hd (Buckets (hd ex_root_entries))) = [] \<and>
   \<lparr>bucket = ''bucket_root'', owner = ''alice'', category = ''get_obj'', store = ''s''\<rparr>
     \<in> fst ` set (aggregate_usage ''s'' ex_root_entries) \<and>
   key_counter OpsCounter (aggregate_usage ''s'' ex_root_entries)
     \<lparr>bucket = ''bucket_root'', owner = ''alice'', category = ''get_obj'', store = ''s''\<rparr> = 3 \<and>
   key_counter BytesSentCounter (aggregate_usage ''s'' ex_root_entries)
     \<lparr>bucket = ''bucket_root'', owner = ''alice'', category = ''get_obj'', store = ''s''\<rparr> = 100"
proof -
  have e: "hd ex_root_entries \<in> set ex_root_entries"
    by (simp add: ex_root_entries_def)
  have b: "hd (Buckets (hd ex_root_entries)) \<in> set (Buckets (hd ex_root_entries))"
    by (simp add: ex_root_entries_def)
  have c: "ex_cat \<in> set (Categories (hd (Buckets (hd ex_root_entries))))"
    by (simp add: ex_root_entries_def)
  have k: "\<lparr>bucket = ''bucket_root'', owner = ''alice'', category = ''get_obj'', store = ''s''\<rparr> =
      \<lparr>bucket = (if Bucket (hd (Buckets (hd ex_root_entries))) = [] then ''bucket_root''
                  else Bucket (hd (Buckets (hd ex_root_entries)))),
       owner = User (hd ex_root_entries), category = Category ex_cat, store = ''s''\<rparr>"
    by (simp add: ex_root_entries_def ex_cat_def)
  have t: "f64_total OpsCounter (filter (\<lambda>r. fst r =
        \<lparr>bucket = ''bucket_root'', owner = ''alice'', category = ''get_obj'', store = ''s''\<rparr>)
        (usage_records ''s'' ex_root_entries)) = 3"
      "f64_total BytesSentCounter (filter (\<lambda>r. fst r =
        \<lparr>bucket = ''bucket_root'', owner = ''alice'', category = ''get_obj'', store = ''s''\<rparr>)
        (usage_records ''s'' ex_root_entries)) = 100"
    by (simp_all add: f64_total_def usage_records_def ex_root_entries_def ex_cat_def f64_add_def
        f64_of_u64_def f64_of_int_def f64_round_def)
  show ?thesis
    using bucket_name_defaulting [OF e b c k] e b c
    by (simp add: t) (simp add: ex_root_entries_def)
qed

section \<open>Conservation and doubling\<close>

text \<open>
  C1, as stated: for every input and each counter, the sum of the counter over the
  aggregate equals its sum over the per-category records of the input, in total and for
  each key. The accumulators are \<^verbatim>\<open>float64\<close> values; a sum beyond \<open>2 ^ 53\<close> is rounded.
  In the example the records of the first key add up to \<open>2 ^ 53 + 1\<close> and all records to
  \<open>2 ^ 53 + 3\<close>, and the aggregate holds \<open>2 ^ 53\<close> and \<open>2 ^ 53 + 2\<close>.
\<close>

theorem usage_conservation_counterexample:
  "aggr_total OpsCounter (aggregate_usage ''s'' ex_large_entries) = 2 ^ 53 + 2 \<and>
   input_total OpsCounter ''s'' ex_large_entries = 2 ^ 53 + 3 \<and>
   aggr_group_total OpsCounter (aggregate_usage ''s'' ex_large_entries) ex_key = 2 ^ 53 \<and>
   input_group_total OpsCounter ''s'' ex_large_entries ex_key = 2 ^ 53 + 1"
  by (simp add: ex_large_entries_def ex_defs model_defs aggr_total_def aggr_group_total_def input_total_def
      input_group_total_def records_total_def records_group_total_def usage_records_def)

text \<open>
  C1, amended. For every input and each of the four counters: when the exact sum of the
  counter over all per-category records of the input is at most \<open>2 ^ 53\<close>, the sum of
  the counter over the aggregate equals it; and for every key whose records have an
  exact sum of at most \<open>2 ^ 53\<close>, the sum of the counter over the pairs of the aggregate
  with that key equals that sum.
\<close>

theorem usage_conservation:
  "(input_total cn st entries \<le> 2 ^ 53 \<longrightarrow>
      aggr_total cn (aggregate_usage st entries) = input_total cn st entries)
   \<and> (\<forall>key. input_group_total cn st entries key \<le> 2 ^ 53 \<longrightarrow>
      aggr_group_total cn (aggregate_usage st entries) key = input_group_total cn st entries key)"
  by (simp add: input_total_def input_group_total_def aggregate_usage_fold aggr_total_fold
      aggr_group_total_key_counter distinct_fold_add_record key_counter_fold)

text \<open>The scenario of two entries for the same user, bucket and category: 3 + 5 operations.\<close>

theorem usage_conservation_witness:
  "input_total OpsCounter ''s'' (ex_entries @ ex_entries) \<le> 2 ^ 53 \<and>
   input_group_total OpsCounter ''s'' (ex_entries @ ex_entries) ex_key \<le> 2 ^ 53 \<and>
   aggr_total OpsCounter (aggregate_usage ''s'' (ex_entries @ ex_entries)) = 6 \<and>
   aggr_group_total OpsCounter (aggregate_usage ''s'' (ex_entries @ ex_entries)) ex_key = 6"
proof -
  have t: "input_total OpsCounter ''s'' (ex_entries @ ex_entries) = 6"
    by (simp add: ex_defs input_total_def records_total_def usage_records_def)
  have g: "input_group_total OpsCounter ''s'' (ex_entries @ ex_entries) ex_key = 6"
    by (simp add: ex_defs input_group_total_def records_group_total_def usage_records_def)
  show ?thesis
    using usage_conservation [of OpsCounter "''s''" "ex_entries @ ex_entries"] t g
    by simp
qed

lemma map_of_key_counter:
  "map_option (aggr_counter cn) (map_of a key) =
     (if key \<in> fst ` set a then Some (key_counter cn a key) else None)"
  by (cases "map_of a key")
     (auto simp: key_counter_def map_of_eq_None_iff dest: map_of_SomeD intro: rev_image_eqI)

lemma records_group_total_append:
  "records_group_total cn (rs @ rs') key =
     records_group_total cn rs key + records_group_total cn rs' key"
  by (simp add: records_group_total_def)

text \<open>
  C9, as stated: aggregating a sequence followed by itself gives, for every key, twice
  the counters of aggregating it once. With \<^verbatim>\<open>float64\<close> accumulators this fails beyond
  \<open>2 ^ 53\<close>: for the records \<open>2 ^ 53 + 2\<close> and \<open>3\<close> of one key the single run holds
  \<open>2 ^ 53 + 4\<close> and the double run \<open>2 ^ 54 + 12\<close>, not \<open>2 ^ 54 + 8\<close>.
\<close>

theorem merge_doubling_counterexample:
  "map_option ops (map_of (aggregate_usage ''s'' ex_tie_entries) ex_key) = Some (2 ^ 53 + 4) \<and>
   map_option ops (map_of (aggregate_usage ''s'' (ex_tie_entries @ ex_tie_entries)) ex_key)
     = Some (2 ^ 54 + 12) \<and>
   (2 ^ 54 + 12 :: int) \<noteq> 2 * (2 ^ 53 + 4)"
  by (simp add: ex_tie_entries_def ex_defs model_defs)

text \<open>
  C9, amended. For every sequence of usage entries, every key and each of the four
  counters such that twice the exact sum of the counter over the records of the key is at
  most \<open>2 ^ 53\<close>: the aggregate of the sequence followed by itself has the key exactly
  when the aggregate of the sequence has it, and its counter is exactly twice the
  counter of the latter.
\<close>

theorem merge_doubling:
  assumes "2 * input_group_total cn st entries key \<le> 2 ^ 53"
  shows "map_option (aggr_counter cn) (map_of (aggregate_usage st (entries @ entries)) key) =
         map_option (\<lambda>v. 2 * aggr_counter cn v) (map_of (aggregate_usage st entries) key)"
proof -
  let ?rs = "usage_records st entries"
  have g: "2 * records_group_total cn ?rs key \<le> 2 ^ 53"
    using assms by (simp add: input_group_total_def)
  have "0 \<le> records_group_total cn ?rs key"
    by (rule records_group_total_nonneg)
  with g have g1: "records_group_total cn ?rs key \<le> 2 ^ 53"
    by linarith
  have g2: "records_group_total cn (?rs @ ?rs) key \<le> 2 ^ 53"
    using g by (simp add: records_group_total_append)
  have once: "key_counter cn (fold add_record ?rs []) key = records_group_total cn ?rs key"
    using g1 by (rule key_counter_fold)
  have twice: "key_counter cn (fold add_record (?rs @ ?rs) []) key =
      2 * records_group_total cn ?rs key"
    using key_counter_fold [OF g2] by (simp add: records_group_total_append)
  have "map_option (\<lambda>v. 2 * aggr_counter cn v) (map_of (aggregate_usage st entries) key) =
      map_option (\<lambda>x. 2 * x) (map_option (aggr_counter cn) (map_of (aggregate_usage st entries) key))"
    by (simp add: option.map_comp comp_def)
  then show ?thesis
    unfolding map_of_key_counter aggregate_usage_fold usage_records_append
    using once twice
    by (auto simp: keys_fold_add_record simp del: fold_append)
qed

theorem merge_doubling_witness:
  "2 * input_group_total OpsCounter ''s'' ex_entries ex_key \<le> 2 ^ 53 \<and>
   map_option ops (map_of (aggregate_usage ''s'' (ex_entries @ ex_entries)) ex_key) = Some 6 \<and>
   map_option ops (map_of (aggregate_usage ''s'' ex_entries) ex_key) = Some 3"
proof -
  have g: "2 * input_group_total OpsCounter ''s'' ex_entries ex_key \<le> 2 ^ 53"
    by (simp add: ex_defs input_group_total_def records_group_total_def usage_records_def)
  have o: "map_option ops (map_of (aggregate_usage ''s'' ex_entries) ex_key) = Some 3"
    by (simp add: ex_defs model_defs)
  show ?thesis
    using merge_doubling [OF g] g o by simp
qed

end
